theory Spec2Isabelle
  imports Complex_Main "HOL-Library.Log_Nat"
begin

section \<open>Go values\<close>

text \<open>
  Go's \<open>int\<close> is modelled as \<open>int\<close>. The code under study never adds, subtracts or
  multiplies two \<open>int\<close> values: it compares them with constants, assigns constants and
  converts them to and from \<open>float64\<close> and decimal text, so the only places where the 64-bit
  range matters are those conversions, and the range check is written out there
  (\<open>f64_to_int\<close>, \<open>Atoi\<close>). The program is built for amd64 and arm64 only (Makefile), on
  which an \<open>int\<close> has 64 bits.

  A \<open>float64\<close> is a finite double (the real number it denotes), an infinity or NaN. Signed
  zeros are identified: the code never divides by a variable. A slice is a list (a nil
  slice and an empty one are both \<open>[]\<close>); a \<open>time.Time\<close> is an opaque instant.
\<close>

datatype float64 = Finite real | PosInf | NegInf | NaN

type_synonym Time = nat

text \<open>\<open>ilog2 x\<close> is the integer part of the binary logarithm of a positive \<open>x\<close>.\<close>

definition ilog2 :: "real \<Rightarrow> int" where
  "ilog2 x = (if 1 \<le> x then bitlen \<lfloor>x\<rfloor> - 1 else - bitlen (\<lceil>1 / x\<rceil> - 1))"

definition round_even :: "real \<Rightarrow> int" where
  "round_even y = (let f = \<lfloor>y\<rfloor>; d = y - of_int f in
     if d < 1 / 2 then f else if 1 / 2 < d then f + 1 else if even f then f else f + 1)"

definition scale2 :: "real \<Rightarrow> int \<Rightarrow> real" where
  "scale2 x e = (if 0 \<le> e then x * 2 ^ nat e else x / 2 ^ nat (- e))"

text \<open>
  IEEE 754 binary64 rounding of an exact result, to nearest with ties to even: 53
  significant bits, least exponent \<open>-1074\<close> (subnormals), overflow to an infinity.
\<close>

definition f64_round :: "real \<Rightarrow> float64" where
  "f64_round x = (if x = 0 then Finite 0 else
     let e = max (ilog2 \<bar>x\<bar> - 52) (- 1074);
         y = scale2 (of_int (round_even (scale2 x (- e)))) e
     in if 2 ^ 1024 \<le> \<bar>y\<bar> then (if 0 < x then PosInf else NegInf) else Finite y)"

fun f64_less :: "float64 \<Rightarrow> float64 \<Rightarrow> bool" where
  "f64_less NaN _ = False"
| "f64_less _ NaN = False"
| "f64_less (Finite a) (Finite b) = (a < b)"
| "f64_less (Finite a) PosInf = True"
| "f64_less (Finite a) NegInf = False"
| "f64_less PosInf _ = False"
| "f64_less NegInf NegInf = False"
| "f64_less NegInf _ = True"

definition f64_greater :: "float64 \<Rightarrow> float64 \<Rightarrow> bool" where
  "f64_greater a b = f64_less b a"

fun f64_neg :: "float64 \<Rightarrow> float64" where
  "f64_neg (Finite a) = Finite (- a)"
| "f64_neg PosInf = NegInf"
| "f64_neg NegInf = PosInf"
| "f64_neg NaN = NaN"

fun f64_mul :: "float64 \<Rightarrow> float64 \<Rightarrow> float64" where
  "f64_mul NaN _ = NaN"
| "f64_mul _ NaN = NaN"
| "f64_mul (Finite a) (Finite b) = f64_round (a * b)"
| "f64_mul (Finite a) b = (if a = 0 then NaN else if 0 < a then b else f64_neg b)"
| "f64_mul a (Finite b) = (if b = 0 then NaN else if 0 < b then a else f64_neg a)"
| "f64_mul a b = (if a = b then PosInf else NegInf)"

text \<open>Division by a non-zero finite divisor, the only division the code performs.\<close>

fun f64_div :: "float64 \<Rightarrow> float64 \<Rightarrow> float64" where
  "f64_div NaN _ = NaN"
| "f64_div _ NaN = NaN"
| "f64_div (Finite a) (Finite b) =
     (if b = 0 then (if a = 0 then NaN else if 0 < a then PosInf else NegInf)
      else f64_round (a / b))"
| "f64_div (Finite a) b = Finite 0"
| "f64_div a (Finite b) = (if 0 \<le> b then a else f64_neg a)"
| "f64_div a b = NaN"

text \<open>\<open>float64(n)\<close> for an \<open>int\<close> \<open>n\<close>.\<close>

definition f64_of_int :: "int \<Rightarrow> float64" where
  "f64_of_int n = f64_round (of_int n)"

text \<open>
  \<open>int(f)\<close> for a \<open>float64\<close> \<open>f\<close>: truncation toward zero when the truncated value is
  an \<open>int64\<close>. For every other operand (a NaN, an infinity, a number beyond the range)
  the language leaves the result to the implementation. That result is a parameter of
  the model: an \<open>arch\<close> gives, for such an operand, the \<open>int\<close> that the conversion
  yields. The program is built for two: on amd64 the conversion instruction yields the
  least \<open>int64\<close> whatever the operand; on arm64 it saturates, and yields 0 for a NaN.
\<close>

type_synonym arch = "float64 \<Rightarrow> int"

definition toward_zero :: "real \<Rightarrow> int" where
  "toward_zero y = (if 0 \<le> y then \<lfloor>y\<rfloor> else \<lceil>y\<rceil>)"

definition f64_to_int :: "arch \<Rightarrow> float64 \<Rightarrow> int" where
  "f64_to_int arch f =
     (case f of
        Finite y \<Rightarrow>
          (let t = toward_zero y
           in if - (2 ^ 63) \<le> t \<and> t < 2 ^ 63 then t else arch f)
      | _ \<Rightarrow> arch f)"

definition amd64 :: arch where
  "amd64 f = - (2 ^ 63)"

definition arm64 :: arch where
  "arm64 f =
     (case f of
        Finite y \<Rightarrow> if 0 < y then 2 ^ 63 - 1 else - (2 ^ 63)
      | PosInf \<Rightarrow> 2 ^ 63 - 1
      | NegInf \<Rightarrow> - (2 ^ 63)
      | NaN \<Rightarrow> 0)"

section \<open>The report (types.CodeAnalysis)\<close>

record ResourceMetrics =
  MemoryMB :: int
  CPUCores :: float64
  DatabaseConns :: int
  NetworkMbps :: int
  StorageGB :: int

record Bottleneck =
  BType :: string
  BDescription :: string
  BSeverity :: string
  BImpact :: string

record SecurityIssue =
  SType :: string
  SDescription :: string
  SSeverity :: string
  SLine :: int
  SFile :: string

record PerformanceMetrics =
  AvgResponseTime :: int
  DatabaseQueries :: int
  CacheHitRate :: int
  HasNPlusOneQuery :: bool
  HasLargePayloads :: bool

record CodeAnalysis =
  ProjectID :: string
  Timestamp :: Time
  Directory :: string
  Language :: string
  Framework :: string
  Dependencies :: "string list"
  DatabaseCalls :: int
  ApiEndpoints :: int
  StatelessFuncs :: int
  BackgroundJobs :: "string list"
  CacheUsage :: "string list"
  FileUploads :: bool
  ComplexityScore :: int
  ScalingBottlenecks :: "Bottleneck list"
  ResourceUsage :: ResourceMetrics
  EstimatedUsers :: int
  SecurityIssues :: "SecurityIssue list"
  Performance :: PerformanceMetrics

text \<open>The zero value of the struct, with the three fields a composite literal sets.\<close>

definition newCodeAnalysis :: "string \<Rightarrow> Time \<Rightarrow> string \<Rightarrow> CodeAnalysis" where
  "newCodeAnalysis projectID now dir =
     \<lparr>ProjectID = projectID, Timestamp = now, Directory = dir,
      Language = [], Framework = [], Dependencies = [],
      DatabaseCalls = 0, ApiEndpoints = 0, StatelessFuncs = 0,
      BackgroundJobs = [], CacheUsage = [], FileUploads = False,
      ComplexityScore = 0, ScalingBottlenecks = [],
      ResourceUsage = \<lparr>MemoryMB = 0, CPUCores = Finite 0, DatabaseConns = 0,
                        NetworkMbps = 0, StorageGB = 0\<rparr>,
      EstimatedUsers = 0, SecurityIssues = [],
      Performance = \<lparr>AvgResponseTime = 0, DatabaseQueries = 0, CacheHitRate = 0,
                      HasNPlusOneQuery = False, HasLargePayloads = False\<rparr>\<rparr>"

section \<open>The normalizer (internal/analyzer/analyzer.go)\<close>

definition estimateCurrentUsers :: "arch \<Rightarrow> CodeAnalysis \<Rightarrow> int" where
  "estimateCurrentUsers arch analysis =
     (let baseUsers = (1000 :: int);
          complexityMultiplier = f64_div (f64_of_int (ComplexityScore analysis)) (Finite 50);
          endpointMultiplier = f64_div (f64_of_int (ApiEndpoints analysis)) (Finite 10);
          endpointMultiplier =
            (if f64_less endpointMultiplier (Finite (1 / 2)) then Finite (1 / 2)
             else endpointMultiplier);
          jobMultiplier =
            (if length (BackgroundJobs analysis) > 0 then Finite (3 / 2) else Finite 1);
          estimated =
            f64_to_int arch (f64_mul (f64_mul (f64_mul (f64_of_int baseUsers) complexityMultiplier)
                                              endpointMultiplier) jobMultiplier);
          estimated = (if estimated < 100 then 100 else estimated);
          estimated = (if estimated > 1000000 then 1000000 else estimated)
      in estimated)"

text \<open>The literal \<open>0.1\<close> is the double nearest to one tenth.\<close>

definition validateResourceEstimates :: "CodeAnalysis \<Rightarrow> CodeAnalysis" where
  "validateResourceEstimates analysis =
     (let resources = ResourceUsage analysis;
          resources = (if MemoryMB resources < 128
                       then resources\<lparr>MemoryMB := 128\<rparr> else resources);
          resources = (if MemoryMB resources > 16384
                       then resources\<lparr>MemoryMB := 16384\<rparr> else resources);
          resources = (if f64_less (CPUCores resources) (f64_round (1 / 10))
                       then resources\<lparr>CPUCores := f64_round (1 / 10)\<rparr> else resources);
          resources = (if f64_greater (CPUCores resources) (Finite 32)
                       then resources\<lparr>CPUCores := Finite 32\<rparr> else resources);
          resources = (if DatabaseConns resources < 1
                       then resources\<lparr>DatabaseConns := 1\<rparr> else resources);
          resources = (if DatabaseConns resources > 1000
                       then resources\<lparr>DatabaseConns := 1000\<rparr> else resources);
          resources = (if NetworkMbps resources < 1
                       then resources\<lparr>NetworkMbps := 1\<rparr> else resources);
          resources = (if NetworkMbps resources > 10000
                       then resources\<lparr>NetworkMbps := 10000\<rparr> else resources);
          resources = (if StorageGB resources < 1
                       then resources\<lparr>StorageGB := 1\<rparr> else resources);
          resources = (if StorageGB resources > 10000
                       then resources\<lparr>StorageGB := 10000\<rparr> else resources)
      in analysis\<lparr>ResourceUsage := resources\<rparr>)"

definition postProcess :: "arch \<Rightarrow> CodeAnalysis \<Rightarrow> CodeAnalysis" where
  "postProcess arch analysis =
     (let analysis = analysis\<lparr>EstimatedUsers := estimateCurrentUsers arch analysis\<rparr>;
          analysis = (if Language analysis = [] then analysis\<lparr>Language := ''Unknown''\<rparr>
                      else analysis);
          analysis = (if Framework analysis = [] then analysis\<lparr>Framework := ''Unknown''\<rparr>
                      else analysis);
          analysis = (if ComplexityScore analysis = 0 then analysis\<lparr>ComplexityScore := 50\<rparr>
                      else analysis)
      in validateResourceEstimates analysis)"

section \<open>Text (packages unicode/utf8, unicode, strings, strconv and fmt)\<close>

text \<open>
  A Go string is a sequence of bytes, modelled as a \<open>string\<close>. Searching and splitting
  work on the bytes. Case mapping, trimming and pattern matching read the bytes as
  UTF-8: a rune is a code point, and a byte that starts no well-formed encoding is read
  as the rune \<open>U+FFFD\<close> of width one.
\<close>

type_synonym error = string

type_synonym rune = nat

definition newline :: char where
  "newline = CHR 0x0A"

definition RuneError :: rune where
  "RuneError = 0xFFFD"

definition byte :: "char \<Rightarrow> nat" where
  "byte c = of_char c"

definition byte_char :: "nat \<Rightarrow> char" where
  "byte_char n = char_of n"

definition is_digit :: "char \<Rightarrow> bool" where
  "is_digit c = (48 \<le> byte c \<and> byte c \<le> 57)"

text \<open>
  \<open>utf8.DecodeRuneInString\<close>: the first rune of a string and its width in bytes. The
  first byte fixes the length of the encoding (\<open>first_size\<close>, 0 for a byte that starts
  none) and the range of the second byte; the later bytes are continuation bytes.
\<close>

definition first_size :: "nat \<Rightarrow> nat" where
  "first_size b = (if b < 0x80 then 1 else if b < 0xC2 then 0 else if b < 0xE0 then 2
                   else if b < 0xF0 then 3 else if b < 0xF5 then 4 else 0)"

definition accept_lo :: "nat \<Rightarrow> nat" where
  "accept_lo b = (if b = 0xE0 then 0xA0 else if b = 0xF0 then 0x90 else 0x80)"

definition accept_hi :: "nat \<Rightarrow> nat" where
  "accept_hi b = (if b = 0xED then 0x9F else if b = 0xF4 then 0x8F else 0xBF)"

definition is_cont :: "nat \<Rightarrow> bool" where
  "is_cont b = (0x80 \<le> b \<and> b \<le> 0xBF)"

fun DecodeRune :: "string \<Rightarrow> rune \<times> nat" where
  "DecodeRune [] = (RuneError, 0)"
| "DecodeRune (c # cs) =
     (let s0 = byte c; sz = first_size s0
      in if sz = 1 then (s0, 1)
         else if sz = 0 \<or> length cs < sz - 1 then (RuneError, 1)
         else
           let s1 = byte (cs ! 0)
           in if s1 < accept_lo s0 \<or> accept_hi s0 < s1 then (RuneError, 1)
              else if sz = 2 then ((s0 mod 32) * 64 + s1 mod 64, 2)
              else
                let s2 = byte (cs ! 1)
                in if \<not> is_cont s2 then (RuneError, 1)
                   else if sz = 3 then ((s0 mod 16) * 4096 + (s1 mod 64) * 64 + s2 mod 64, 3)
                   else
                     let s3 = byte (cs ! 2)
                     in if \<not> is_cont s3 then (RuneError, 1)
                        else ((s0 mod 8) * 262144 + (s1 mod 64) * 4096 + (s2 mod 64) * 64
                              + s3 mod 64, 4))"

text \<open>
  A string as the sequence of its runes, each with the bytes it was read from: what a
  \<open>range\<close> loop over the string, or the matcher of package \<open>regexp\<close>, steps through.
\<close>

type_synonym token = "rune \<times> string"

fun runes :: "string \<Rightarrow> token list" where
  "runes [] = []"
| "runes (c # cs) =
     (let n = snd (DecodeRune (c # cs))
      in (fst (DecodeRune (c # cs)), take n (c # cs)) # runes (drop (n - 1) cs))"

definition text_of :: "token list \<Rightarrow> string" where
  "text_of ts = concat (map snd ts)"

text \<open>
  \<open>utf8.AppendRune\<close>: the encoding of a rune; a surrogate and a value beyond
  \<open>U+10FFFF\<close> are encoded as \<open>U+FFFD\<close>.
\<close>

definition EncodeRune :: "rune \<Rightarrow> string" where
  "EncodeRune r =
     (if r \<le> 0x7F then [byte_char r]
      else if r \<le> 0x7FF then [byte_char (0xC0 + r div 64), byte_char (0x80 + r mod 64)]
      else if 0x10FFFF < r \<or> (0xD800 \<le> r \<and> r \<le> 0xDFFF)
        then [byte_char 0xEF, byte_char 0xBF, byte_char 0xBD]
      else if r \<le> 0xFFFF
        then [byte_char (0xE0 + r div 4096), byte_char (0x80 + (r div 64) mod 64),
              byte_char (0x80 + r mod 64)]
      else [byte_char (0xF0 + r div 262144), byte_char (0x80 + (r div 4096) mod 64),
            byte_char (0x80 + (r div 64) mod 64), byte_char (0x80 + r mod 64)])"

text \<open>
  The tables of package \<open>unicode\<close> are data of the Go release the program is built
  with, not of the program; they are a parameter of the model. A \<open>Unicode\<close> gives the
  lower-case and the title-case mapping, the letters and the digits for the runes beyond
  ASCII, and the white space beyond Latin-1. The functions of the package decide ASCII
  (for white space, Latin-1) themselves and consult the tables for the other runes.
\<close>

record Unicode =
  LowerCase :: "rune \<Rightarrow> rune"
  TitleCase :: "rune \<Rightarrow> rune"
  IsLetterBeyond :: "rune \<Rightarrow> bool"
  IsDigitBeyond :: "rune \<Rightarrow> bool"
  WhiteSpace :: "rune \<Rightarrow> bool"

definition unicode_ToLower :: "Unicode \<Rightarrow> rune \<Rightarrow> rune" where
  "unicode_ToLower u r =
     (if r \<le> 0x7F then (if 0x41 \<le> r \<and> r \<le> 0x5A then r + 32 else r) else LowerCase u r)"

definition unicode_ToTitle :: "Unicode \<Rightarrow> rune \<Rightarrow> rune" where
  "unicode_ToTitle u r =
     (if r \<le> 0x7F then (if 0x61 \<le> r \<and> r \<le> 0x7A then r - 32 else r) else TitleCase u r)"

definition unicode_IsSpace :: "Unicode \<Rightarrow> rune \<Rightarrow> bool" where
  "unicode_IsSpace u r =
     (if r \<le> 0xFF
      then r = 0x09 \<or> r = 0x0A \<or> r = 0x0B \<or> r = 0x0C \<or> r = 0x0D \<or> r = 0x20 \<or> r = 0x85
           \<or> r = 0xA0
      else WhiteSpace u r)"

text \<open>
  \<open>strings.Map\<close>: the encodings of the mapped runes. A well-formed encoding whose
  rune the mapping leaves alone is copied, which is its rune encoded again; a byte read
  as \<open>U+FFFD\<close> is replaced by the three bytes of that rune.
\<close>

definition Map_runes :: "(rune \<Rightarrow> rune) \<Rightarrow> string \<Rightarrow> string" where
  "Map_runes mapping s = concat (map (\<lambda>t. EncodeRune (mapping (fst t))) (runes s))"

definition ToLower :: "Unicode \<Rightarrow> string \<Rightarrow> string" where
  "ToLower u s = Map_runes (unicode_ToLower u) s"

fun HasPrefix :: "string \<Rightarrow> string \<Rightarrow> bool" where
  "HasPrefix s [] = True"
| "HasPrefix [] (p # ps) = False"
| "HasPrefix (c # cs) (p # ps) = (c = p \<and> HasPrefix cs ps)"

fun Contains :: "string \<Rightarrow> string \<Rightarrow> bool" where
  "Contains [] substr = (substr = [])"
| "Contains (c # cs) substr = (HasPrefix (c # cs) substr \<or> Contains cs substr)"

text \<open>\<open>strings.Split(s, "\n")\<close>.\<close>

fun Split_lines :: "string \<Rightarrow> string list" where
  "Split_lines [] = [[]]"
| "Split_lines (c # cs) =
     (if c = newline then [] # Split_lines cs
      else (case Split_lines cs of [] \<Rightarrow> [[c]] | l # ls \<Rightarrow> (c # l) # ls))"

text \<open>
  \<open>strings.TrimSpace\<close>: the string without its leading and trailing white-space
  runes. Reading the last rune of a string backward gives the last rune of reading it
  forward, so both ends are trimmed on the one sequence of runes.
\<close>

definition TrimSpace :: "Unicode \<Rightarrow> string \<Rightarrow> string" where
  "TrimSpace u s =
     (let space = (\<lambda>t. unicode_IsSpace u (fst t))
      in text_of (rev (dropWhile space (rev (dropWhile space (runes s))))))"

text \<open>
  \<open>strings.Title\<close>: a rune that follows a separator is mapped to title case; the
  rune before the first one counts as a space.
\<close>

definition isSeparator :: "Unicode \<Rightarrow> rune \<Rightarrow> bool" where
  "isSeparator u r =
     (if r \<le> 0x7F
      then \<not> ((0x30 \<le> r \<and> r \<le> 0x39) \<or> (0x61 \<le> r \<and> r \<le> 0x7A) \<or> (0x41 \<le> r \<and> r \<le> 0x5A)
              \<or> r = 0x5F)
      else if IsLetterBeyond u r \<or> IsDigitBeyond u r then False
      else unicode_IsSpace u r)"

fun Title_from :: "Unicode \<Rightarrow> rune \<Rightarrow> token list \<Rightarrow> string" where
  "Title_from u prev [] = []"
| "Title_from u prev (t # ts) =
     EncodeRune (if isSeparator u prev then unicode_ToTitle u (fst t) else fst t)
     @ Title_from u (fst t) ts"

definition Title :: "Unicode \<Rightarrow> string \<Rightarrow> string" where
  "Title u s = Title_from u 0x20 (runes s)"

text \<open>Decimal digits, for \<open>%d\<close> and for \<open>strconv\<close>.\<close>

definition digit_char :: "nat \<Rightarrow> char" where
  "digit_char d = (if d = 0 then CHR ''0'' else if d = 1 then CHR ''1'' else if d = 2 then CHR ''2''
     else if d = 3 then CHR ''3'' else if d = 4 then CHR ''4'' else if d = 5 then CHR ''5''
     else if d = 6 then CHR ''6'' else if d = 7 then CHR ''7'' else if d = 8 then CHR ''8''
     else CHR ''9'')"

fun show_nat :: "nat \<Rightarrow> string" where
  "show_nat n = (if n < 10 then [digit_char n] else show_nat (n div 10) @ [digit_char (n mod 10)])"

definition show_int :: "int \<Rightarrow> string" where
  "show_int i = (if i < 0 then CHR ''-'' # show_nat (nat (- i)) else show_nat (nat i))"

definition digit_val :: "char \<Rightarrow> int" where
  "digit_val c = int (byte c) - 48"

definition digits_val :: "string \<Rightarrow> int" where
  "digits_val ds = foldl (\<lambda>a c. 10 * a + digit_val c) 0 ds"

text \<open>
  \<open>strconv.Atoi\<close>: an optional sign and decimal digits; \<open>None\<close> is the error, returned
  for a malformed text and for a value that is not an \<open>int64\<close>.
\<close>

definition Atoi :: "string \<Rightarrow> int option" where
  "Atoi s =
     (let neg = (s \<noteq> [] \<and> hd s = CHR ''-'');
          ds = (if s \<noteq> [] \<and> (hd s = CHR ''-'' \<or> hd s = CHR ''+'') then tl s else s)
      in if ds = [] \<or> \<not> list_all is_digit ds then None
         else let n = (if neg then - digits_val ds else digits_val ds)
              in if - (2 ^ 63) \<le> n \<and> n \<le> 2 ^ 63 - 1 then Some n else None)"

text \<open>
  \<open>strconv.ParseFloat(s, 64)\<close> on decimal text: an optional sign, digits and an
  optional fraction, rounded to the nearest double; \<open>None\<close> is the error, returned for a
  malformed text and for a value that rounds to an infinity. Exponents, hexadecimal
  text, \<open>inf\<close> and \<open>nan\<close> are not modelled: the text parsed by the code comes from a
  pattern group that holds digits and an optional fraction only.
\<close>

definition ParseFloat :: "string \<Rightarrow> float64 option" where
  "ParseFloat s =
     (let neg = (s \<noteq> [] \<and> hd s = CHR ''-'');
          body = (if s \<noteq> [] \<and> (hd s = CHR ''-'' \<or> hd s = CHR ''+'') then tl s else s);
          ip = takeWhile (\<lambda>c. c \<noteq> CHR ''.'') body;
          fp = drop 1 (dropWhile (\<lambda>c. c \<noteq> CHR ''.'') body)
      in if (ip = [] \<and> fp = []) \<or> \<not> list_all is_digit ip \<or> \<not> list_all is_digit fp then None
         else let v = of_int (digits_val ip) + of_int (digits_val fp) / 10 ^ length fp
              in (case f64_round (if neg then - v else v) of
                    Finite y \<Rightarrow> Some (Finite y)
                  | _ \<Rightarrow> None))"

section \<open>Regular expressions (package regexp)\<close>

text \<open>
  The patterns of the code use character classes (a literal, \<open>\d\<close>, \<open>.\<close>),
  concatenation, alternation, \<open>?\<close> on a group, \<open>*\<close>, \<open>+\<close> and \<open>*?\<close> on a class,
  and capture groups. The matcher steps through the runes of the text. Go's matching is
  leftmost-first: the match starts as early as possible and is the one a backtracking
  search finds first. \<open>bt\<close> is that search, on a stack of what remains to be matched;
  \<open>Close n s0\<close> ends group \<open>n\<close>, opened when the input was \<open>s0\<close>.

  \<open>\d\<close> is an ASCII digit and \<open>.\<close> is any rune but the newline. The literals of the
  patterns are ASCII. Under the flag \<open>(?i)\<close> a literal matches every rune of its orbit
  under simple case folding: both ASCII cases of a letter and, for \<open>k\<close> and \<open>s\<close>, the
  Kelvin sign \<open>U+212A\<close> and the long s \<open>U+017F\<close>.
\<close>

datatype cclass = CDigit | CAny | CLit char

datatype regex =
    Eps
  | Class cclass
  | Cat regex regex
  | Alt regex regex
  | Opt regex
  | Star cclass
  | Plus cclass
  | LazyStar cclass
  | Group nat regex

datatype item = Rx regex | Close nat "token list"

type_synonym captures = "(nat \<times> string) list"

definition fold_orbit :: "rune \<Rightarrow> rune list" where
  "fold_orbit r =
     (if 0x41 \<le> r \<and> r \<le> 0x5A
      then (r + 32) # (if r = 0x4B then [0x212A] else if r = 0x53 then [0x17F] else [])
      else if 0x61 \<le> r \<and> r \<le> 0x7A
      then (r - 32) # (if r = 0x6B then [0x212A] else if r = 0x73 then [0x17F] else [])
      else [])"

fun cmatch :: "bool \<Rightarrow> cclass \<Rightarrow> rune \<Rightarrow> bool" where
  "cmatch ci CDigit r = (0x30 \<le> r \<and> r \<le> 0x39)"
| "cmatch ci CAny r = (r \<noteq> 0x0A)"
| "cmatch ci (CLit a) r = (r = byte a \<or> (ci \<and> r \<in> set (fold_orbit (byte a))))"

fun cost :: "regex \<Rightarrow> nat" where
  "cost Eps = 1"
| "cost (Class c) = 1"
| "cost (Cat r1 r2) = 1 + cost r1 + cost r2"
| "cost (Alt r1 r2) = 1 + cost r1 + cost r2"
| "cost (Opt r) = 1 + cost r"
| "cost (Star c) = 1"
| "cost (Plus c) = 3"
| "cost (LazyStar c) = 1"
| "cost (Group n r) = 2 + cost r"

fun icost :: "item \<Rightarrow> nat" where
  "icost (Rx r) = cost r"
| "icost (Close n s) = 1"

function bt :: "bool \<Rightarrow> item list \<Rightarrow> token list \<Rightarrow> captures \<Rightarrow> (token list \<times> captures) option" where
  "bt ci [] s caps = Some (s, caps)"
| "bt ci (Rx Eps # k) s caps = bt ci k s caps"
| "bt ci (Rx (Class c) # k) s caps =
     (case s of [] \<Rightarrow> None
      | x # xs \<Rightarrow> if cmatch ci c (fst x) then bt ci k xs caps else None)"
| "bt ci (Rx (Cat r1 r2) # k) s caps = bt ci (Rx r1 # Rx r2 # k) s caps"
| "bt ci (Rx (Alt r1 r2) # k) s caps =
     (case bt ci (Rx r1 # k) s caps of
        Some m \<Rightarrow> Some m
      | None \<Rightarrow> bt ci (Rx r2 # k) s caps)"
| "bt ci (Rx (Opt r) # k) s caps =
     (case bt ci (Rx r # k) s caps of
        Some m \<Rightarrow> Some m
      | None \<Rightarrow> bt ci k s caps)"
| "bt ci (Rx (Star c) # k) s caps =
     (case s of [] \<Rightarrow> bt ci k s caps
      | x # xs \<Rightarrow>
          if cmatch ci c (fst x)
          then (case bt ci (Rx (Star c) # k) xs caps of
                  Some m \<Rightarrow> Some m
                | None \<Rightarrow> bt ci k s caps)
          else bt ci k s caps)"
| "bt ci (Rx (Plus c) # k) s caps = bt ci (Rx (Class c) # Rx (Star c) # k) s caps"
| "bt ci (Rx (LazyStar c) # k) s caps =
     (case bt ci k s caps of
        Some m \<Rightarrow> Some m
      | None \<Rightarrow>
          (case s of [] \<Rightarrow> None
           | x # xs \<Rightarrow>
               if cmatch ci c (fst x) then bt ci (Rx (LazyStar c) # k) xs caps else None))"
| "bt ci (Rx (Group n r) # k) s caps = bt ci (Rx r # Close n s # k) s caps"
| "bt ci (Close n s0 # k) s caps =
     bt ci k s ((n, text_of (take (length s0 - length s) s0)) # caps)"
  by pat_completeness auto
termination
  by (relation "inv_image (less_than <*lex*> less_than)
                  (\<lambda>(ci, k, s, caps). (sum_list (map icost k), length s))") auto

text \<open>A literal word.\<close>

fun lit :: "string \<Rightarrow> regex" where
  "lit [] = Eps"
| "lit [c] = Class (CLit c)"
| "lit (c # cs) = Cat (Class (CLit c)) (lit cs)"

fun ngroups :: "regex \<Rightarrow> nat" where
  "ngroups Eps = 0"
| "ngroups (Class c) = 0"
| "ngroups (Cat r1 r2) = max (ngroups r1) (ngroups r2)"
| "ngroups (Alt r1 r2) = max (ngroups r1) (ngroups r2)"
| "ngroups (Opt r) = ngroups r"
| "ngroups (Star c) = 0"
| "ngroups (Plus c) = 0"
| "ngroups (LazyStar c) = 0"
| "ngroups (Group n r) = max n (ngroups r)"

text \<open>The leftmost match: the input at its start, the input after it, the groups.\<close>

fun find_leftmost :: "bool \<Rightarrow> regex \<Rightarrow> token list \<Rightarrow> (token list \<times> token list \<times> captures) option" where
  "find_leftmost ci r s =
     (case bt ci [Rx r] s [] of
        Some (rest, caps) \<Rightarrow> Some (s, rest, caps)
      | None \<Rightarrow> (case s of [] \<Rightarrow> None | x # xs \<Rightarrow> find_leftmost ci r xs))"

text \<open>
  \<open>FindStringSubmatch\<close>: \<open>None\<close> is the nil slice of no match; otherwise the text of the
  match followed by the text of each group, empty for a group that took no part.
\<close>

definition group_text :: "captures \<Rightarrow> nat \<Rightarrow> string" where
  "group_text caps n = (case map_of caps n of None \<Rightarrow> [] | Some t \<Rightarrow> t)"

definition FindStringSubmatch :: "bool \<Rightarrow> regex \<Rightarrow> string \<Rightarrow> string list option" where
  "FindStringSubmatch ci r s =
     (case find_leftmost ci r (runes s) of
        None \<Rightarrow> None
      | Some (start, rest, caps) \<Rightarrow>
          Some (text_of (take (length start - length rest) start)
                # map (group_text caps) [1 ..< Suc (ngroups r)]))"

section \<open>The extractors (internal/claude)\<close>

text \<open>Every pattern is compiled with the prefix \<open>(?i)\<close>.\<close>

definition extractNumber :: "string \<Rightarrow> regex \<Rightarrow> int" where
  "extractNumber text pattern =
     (case FindStringSubmatch True pattern text of
        None \<Rightarrow> 0
      | Some matches \<Rightarrow>
          if length matches > 1
          then (case Atoi (matches ! 1) of Some num \<Rightarrow> num | None \<Rightarrow> 0)
          else 0)"

definition extractFloat :: "string \<Rightarrow> regex \<Rightarrow> float64" where
  "extractFloat text pattern =
     (case FindStringSubmatch True pattern text of
        None \<Rightarrow> Finite 0
      | Some matches \<Rightarrow>
          if length matches > 1
          then (case ParseFloat (matches ! 1) of Some num \<Rightarrow> num | None \<Rightarrow> Finite 0)
          else Finite 0)"

text \<open>\<^verbatim>\<open>(\d+).*(?:w1|w2|...)\<close>, the shape of most patterns.\<close>

definition number_before :: "regex \<Rightarrow> regex" where
  "number_before words = Cat (Group 1 (Plus CDigit)) (Cat (Star CAny) words)"

text \<open>\<^verbatim>\<open>(\d+).*(?:database|query)\<close>\<close>

definition pattern_database :: regex where
  "pattern_database = number_before (Alt (lit ''database'') (lit ''query''))"

text \<open>\<^verbatim>\<open>(?:complexity|score).*?(\d+)\<close>\<close>

definition pattern_complexity_after :: regex where
  "pattern_complexity_after =
     Cat (Alt (lit ''complexity'') (lit ''score''))
         (Cat (LazyStar CAny) (Group 1 (Plus CDigit)))"

text \<open>\<^verbatim>\<open>(\d+).*(?:complexity|score)\<close>\<close>

definition pattern_complexity_before :: regex where
  "pattern_complexity_before = number_before (Alt (lit ''complexity'') (lit ''score''))"

text \<open>\<^verbatim>\<open>(\d+).*MB|(\d+).*memory\<close>\<close>

definition pattern_memory :: regex where
  "pattern_memory =
     Alt (Cat (Group 1 (Plus CDigit)) (Cat (Star CAny) (lit ''MB'')))
         (Cat (Group 2 (Plus CDigit)) (Cat (Star CAny) (lit ''memory'')))"

text \<open>\<^verbatim>\<open>(\d+(?:\.\d+)?).*(?:core|cpu)\<close>\<close>

definition pattern_cpu :: regex where
  "pattern_cpu =
     Cat (Group 1 (Cat (Plus CDigit) (Opt (Cat (Class (CLit (CHR ''.''))) (Plus CDigit)))))
         (Cat (Star CAny) (Alt (lit ''core'') (lit ''cpu'')))"

text \<open>\<^verbatim>\<open>(\d+).*(?:connection|conn)\<close>\<close>

definition pattern_connections :: regex where
  "pattern_connections = number_before (Alt (lit ''connection'') (lit ''conn''))"

text \<open>\<^verbatim>\<open>(\d+).*(?:Mbps|bandwidth)\<close>\<close>

definition pattern_network :: regex where
  "pattern_network = number_before (Alt (lit ''Mbps'') (lit ''bandwidth''))"

text \<open>\<^verbatim>\<open>(\d+).*(?:GB|storage)\<close>\<close>

definition pattern_storage :: regex where
  "pattern_storage = number_before (Alt (lit ''GB'') (lit ''storage''))"

text \<open>\<^verbatim>\<open>(\d+).*(?:endpoint|route|api)\<close>\<close>

definition pattern_endpoints :: regex where
  "pattern_endpoints =
     number_before (Alt (lit ''endpoint'') (Alt (lit ''route'') (lit ''api'')))"

definition extractComplexity :: "string \<Rightarrow> int" where
  "extractComplexity text =
     (let complexity = extractNumber text pattern_complexity_after;
          complexity = (if complexity = 0 then extractNumber text pattern_complexity_before
                        else complexity)
      in if complexity = 0 \<or> complexity > 100 then 50 else complexity)"

definition cacheTypes :: "string list" where
  "cacheTypes = [''redis'', ''memcached'', ''memory cache'', ''cdn'', ''browser cache'']"

definition extractCacheUsage :: "Unicode \<Rightarrow> string \<Rightarrow> string list" where
  "extractCacheUsage u text =
     (let lower = ToLower u text
      in foldl (\<lambda>caches cache. if Contains lower cache then caches @ [cache] else caches)
               [] cacheTypes)"

definition extractSeverity :: "Unicode \<Rightarrow> string \<Rightarrow> string" where
  "extractSeverity u text =
     (let lower = ToLower u text
      in if Contains lower ''critical'' then ''critical''
         else if Contains lower ''high'' then ''high''
         else if Contains lower ''medium'' then ''medium''
         else ''low'')"

definition extractBottlenecks :: "Unicode \<Rightarrow> string \<Rightarrow> Bottleneck list" where
  "extractBottlenecks u text =
     foldl (\<lambda>bottlenecks line.
              let lower = ToLower u (TrimSpace u line)
              in if lower = [] then bottlenecks
                 else
                   let bottlenecks =
                         (if Contains lower ''database'' \<and>
                             (Contains lower ''slow'' \<or> Contains lower ''bottleneck'' \<or>
                              Contains lower ''limit'')
                          then bottlenecks @
                                 [\<lparr>BType = ''database'', BDescription = line,
                                   BSeverity = extractSeverity u line,
                                   BImpact = ''May cause slow response times under load''\<rparr>]
                          else bottlenecks)
                   in if Contains lower ''memory'' \<and> Contains lower ''leak''
                      then bottlenecks @
                             [\<lparr>BType = ''memory'', BDescription = line, BSeverity = ''high'',
                               BImpact = ''Could cause application crashes''\<rparr>]
                      else bottlenecks)
           [] (Split_lines text)"

definition estimateMemoryFromComplexity :: "int \<Rightarrow> int" where
  "estimateMemoryFromComplexity complexity =
     (if complexity \<ge> 80 then 2048
      else if complexity \<ge> 60 then 1024
      else if complexity \<ge> 40 then 512
      else 256)"

definition estimateCPUFromEndpoints :: "int \<Rightarrow> float64" where
  "estimateCPUFromEndpoints endpoints =
     (if endpoints \<ge> 50 then Finite 4
      else if endpoints \<ge> 20 then Finite 2
      else if endpoints \<ge> 10 then Finite 1
      else Finite (1 / 2))"

section \<open>The analysis client (internal/claude)\<close>

text \<open>
  What the client reads from outside the program: whether \<open>claude\<close> is on the
  execution path, what a run of it with a prompt and a directory gives (\<open>Inl\<close> the
  error text and the captured output of a failed run, \<open>Inr\<close> the output of a
  successful one), whether \<open>os.Stat\<close> reports a path as missing, the decoding of a structured payload by \<open>encoding/json\<close> (\<open>None\<close>
  when the text does not decode), and the clock.
\<close>

record BasicStructure =
  jsLanguage :: string
  jsFramework :: string
  jsDependencies :: "string list"
  jsApiEndpoints :: int
  jsBackgroundJobs :: "string list"
  jsFileUploads :: bool

record World =
  StatNotExist :: "string \<Rightarrow> bool"
  LookPath :: bool
  RunClaude :: "string \<Rightarrow> string \<Rightarrow> (error \<times> string) + string"
  Unmarshal :: "string \<Rightarrow> BasicStructure option"
  Now :: Time

record Client =
  projectDir :: string

definition unlines :: "string list \<Rightarrow> string" where
  "unlines ls = (case ls of [] \<Rightarrow> [] | l # rest \<Rightarrow> foldl (\<lambda>acc x. acc @ [newline] @ x) l rest)"

definition IsInstalled :: "World \<Rightarrow> bool" where
  "IsInstalled w = LookPath w"

definition runClaudeCommand :: "World \<Rightarrow> Client \<Rightarrow> string \<Rightarrow> error + string" where
  "runClaudeCommand w c prompt =
     (case RunClaude w prompt (projectDir c) of
        Inl (err, output) \<Rightarrow>
          Inl (''claude command failed: '' @ err @ [newline] @ ''Output: '' @ output)
      | Inr output \<Rightarrow> Inr output)"

definition languages :: "string list" where
  "languages = [''javascript'', ''python'', ''go'', ''java'', ''php'', ''ruby'', ''typescript'']"

definition frameworks :: "string list" where
  "frameworks = [''react'', ''vue'', ''angular'', ''express'', ''fastapi'', ''django'', ''gin'',
                 ''echo'']"

definition parseBasicStructureHeuristic :: "Unicode \<Rightarrow> string \<Rightarrow> CodeAnalysis \<Rightarrow> CodeAnalysis" where
  "parseBasicStructureHeuristic u output analysis =
     (let lower = ToLower u output;
          analysis = (case find (\<lambda>lang. Contains lower lang) languages of
                        Some lang \<Rightarrow> analysis\<lparr>Language := Title u lang\<rparr>
                      | None \<Rightarrow> analysis);
          analysis = (case find (\<lambda>framework. Contains lower framework) frameworks of
                        Some framework \<Rightarrow> analysis\<lparr>Framework := Title u framework\<rparr>
                      | None \<Rightarrow> analysis);
          analysis = analysis\<lparr>ApiEndpoints := extractNumber output pattern_endpoints\<rparr>
      in if ApiEndpoints analysis = 0 then analysis\<lparr>ApiEndpoints := 5\<rparr> else analysis)"

definition prompt_basic :: string where
  \<open>prompt_basic = unlines
     [''Analyze this codebase and identify:'',
      ''1. Primary programming language'',
      ''2. Web framework being used'',
      ''3. Key dependencies and libraries'',
      ''4. Number of API endpoints/routes'',
      ''5. Background job processing (if any)'',
      ''6. File upload capabilities'',
      '''',
      ''Respond in this JSON format:'',
      ''{'',
      ''  "language": "string",'',
      ''  "framework": "string", '',
      ''  "dependencies": ["dep1", "dep2"],'',
      ''  "api_endpoints": number,'',
      ''  "background_jobs": ["job1", "job2"],'',
      ''  "file_uploads": boolean'',
      ''}'']\<close>

definition prompt_database :: string where
  "prompt_database = unlines
     [''Analyze database and API patterns in this codebase:'',
      ''1. Count database queries/calls'',
      ''2. Identify database connection patterns'',
      ''3. Look for N+1 query problems'',
      ''4. Find caching usage (Redis, Memcached, etc.)'',
      ''5. Estimate complexity on a scale of 1-100'',
      '''',
      ''Focus on scalability concerns and potential bottlenecks.'']"

definition prompt_performance :: string where
  "prompt_performance = unlines
     [''Identify scaling bottlenecks and performance issues:'',
      ''1. Database connection limits'',
      ''2. Memory-intensive operations  '',
      ''3. CPU-heavy computations'',
      ''4. Network bottlenecks'',
      ''5. Synchronous operations that should be async'',
      ''6. Large payload responses'',
      '''',
      ''For each issue, specify type (database/cpu/memory/network) and severity (low/medium/high/critical).'']"

definition prompt_resources :: "CodeAnalysis \<Rightarrow> string" where
  "prompt_resources analysis = unlines
     [''Based on this '' @ Language analysis @ ''/'' @ Framework analysis @
        '' application with '' @ show_int (ApiEndpoints analysis) @ '' API endpoints and '' @
        show_int (int (length (BackgroundJobs analysis))) @ '' background jobs:'',
      '''',
      ''Estimate resource requirements for 1000 concurrent users:'',
      ''1. Memory usage in MB'',
      ''2. CPU cores needed  '',
      ''3. Database connections required'',
      ''4. Network bandwidth in Mbps'',
      ''5. Storage requirements in GB'',
      '''',
      ''Consider the complexity score of '' @ show_int (ComplexityScore analysis) @
        '' and provide realistic estimates.'']"

text \<open>
  A pass returns \<open>Inl\<close> the error, or \<open>Inr\<close> the report as the pass has updated it in
  place.
\<close>

definition analyzeBasicStructure ::
    "Unicode \<Rightarrow> World \<Rightarrow> Client \<Rightarrow> CodeAnalysis \<Rightarrow> error + CodeAnalysis" where
  "analyzeBasicStructure u w c analysis =
     (case runClaudeCommand w c prompt_basic of
        Inl err \<Rightarrow> Inl err
      | Inr output \<Rightarrow>
          (case Unmarshal w output of
             Some result \<Rightarrow>
               Inr (analysis\<lparr>Language := jsLanguage result,
                             Framework := jsFramework result,
                             Dependencies := jsDependencies result,
                             ApiEndpoints := jsApiEndpoints result,
                             BackgroundJobs := jsBackgroundJobs result,
                             FileUploads := jsFileUploads result\<rparr>)
           | None \<Rightarrow> Inr (parseBasicStructureHeuristic u output analysis)))"

definition analyzeDatabaseAndAPI ::
    "Unicode \<Rightarrow> World \<Rightarrow> Client \<Rightarrow> CodeAnalysis \<Rightarrow> error + CodeAnalysis" where
  "analyzeDatabaseAndAPI u w c analysis =
     (case runClaudeCommand w c prompt_database of
        Inl err \<Rightarrow> Inl err
      | Inr output \<Rightarrow>
          Inr (analysis\<lparr>DatabaseCalls := extractNumber output pattern_database,
                        ComplexityScore := extractComplexity output,
                        CacheUsage := extractCacheUsage u output,
                        Performance := (Performance analysis)
                          \<lparr>HasNPlusOneQuery :=
                             (Contains (ToLower u output) ''n+1'' \<or>
                              Contains (ToLower u output) ''n plus one'')\<rparr>\<rparr>))"

definition analyzePerformanceAndScaling ::
    "Unicode \<Rightarrow> World \<Rightarrow> Client \<Rightarrow> CodeAnalysis \<Rightarrow> error + CodeAnalysis" where
  "analyzePerformanceAndScaling u w c analysis =
     (case runClaudeCommand w c prompt_performance of
        Inl err \<Rightarrow> Inl err
      | Inr output \<Rightarrow>
          Inr (analysis\<lparr>ScalingBottlenecks := extractBottlenecks u output,
                        Performance := (Performance analysis)
                          \<lparr>HasLargePayloads := Contains (ToLower u output) ''large payload''\<rparr>\<rparr>))"

text \<open>\<open>x == 0\<close> on doubles.\<close>

definition f64_is_zero :: "float64 \<Rightarrow> bool" where
  "f64_is_zero x = (x = Finite 0)"

definition estimateResources :: "World \<Rightarrow> Client \<Rightarrow> CodeAnalysis \<Rightarrow> error + CodeAnalysis" where
  "estimateResources w c analysis =
     (case runClaudeCommand w c (prompt_resources analysis) of
        Inl err \<Rightarrow> Inl err
      | Inr output \<Rightarrow>
          (let resources = (ResourceUsage analysis)
                 \<lparr>MemoryMB := extractNumber output pattern_memory,
                  CPUCores := extractFloat output pattern_cpu,
                  DatabaseConns := extractNumber output pattern_connections,
                  NetworkMbps := extractNumber output pattern_network,
                  StorageGB := extractNumber output pattern_storage\<rparr>;
               resources =
                 (if MemoryMB resources = 0
                  then resources\<lparr>MemoryMB := estimateMemoryFromComplexity (ComplexityScore analysis)\<rparr>
                  else resources);
               resources =
                 (if f64_is_zero (CPUCores resources)
                  then resources\<lparr>CPUCores := estimateCPUFromEndpoints (ApiEndpoints analysis)\<rparr>
                  else resources)
           in Inr (analysis\<lparr>ResourceUsage := resources\<rparr>)))"

text \<open>\<open>Client.Analyze\<close>: \<open>Inl\<close> is the pair of a nil report and an error.\<close>

definition claude_Analyze ::
    "Unicode \<Rightarrow> World \<Rightarrow> Client \<Rightarrow> string \<Rightarrow> error + CodeAnalysis" where
  "claude_Analyze u w c projectID =
     (if \<not> IsInstalled w then Inl ''Claude Code CLI not installed''
      else
        let analysis = newCodeAnalysis projectID (Now w) (projectDir c)
        in case analyzeBasicStructure u w c analysis of
             Inl err \<Rightarrow> Inl (''basic analysis failed: '' @ err)
           | Inr analysis \<Rightarrow>
        (case analyzeDatabaseAndAPI u w c analysis of
             Inl err \<Rightarrow> Inl (''database/API analysis failed: '' @ err)
           | Inr analysis \<Rightarrow>
        (case analyzePerformanceAndScaling u w c analysis of
             Inl err \<Rightarrow> Inl (''performance analysis failed: '' @ err)
           | Inr analysis \<Rightarrow>
        (case estimateResources w c analysis of
             Inl err \<Rightarrow> Inl (''resource estimation failed: '' @ err)
           | Inr analysis \<Rightarrow> Inr analysis))))"


section \<open>The analyzer (internal/analyzer)\<close>

record Analyzer =
  aProjectDir :: string
  aProjectID :: string
  aClaude :: Client

definition New :: "string \<Rightarrow> string \<Rightarrow> Analyzer" where
  "New dir projectID = \<lparr>aProjectDir = dir, aProjectID = projectID, aClaude = \<lparr>projectDir = dir\<rparr>\<rparr>"

text \<open>
  \<open>preflightChecks\<close>: \<open>None\<close> is the nil error. The test whether the directory looks
  like a code project only prints a warning.
\<close>

definition preflightChecks :: "World \<Rightarrow> Analyzer \<Rightarrow> error option" where
  "preflightChecks w a =
     (if StatNotExist w (aProjectDir a)
      then Some (''directory does not exist: '' @ aProjectDir a)
      else if \<not> IsInstalled w then Some ''Claude Code CLI not installed''
      else None)"

definition analyzer_Analyze ::
    "arch \<Rightarrow> Unicode \<Rightarrow> World \<Rightarrow> Analyzer \<Rightarrow> error + CodeAnalysis" where
  "analyzer_Analyze arch u w a =
     (case preflightChecks w a of
        Some err \<Rightarrow> Inl err
      | None \<Rightarrow>
          (case claude_Analyze u w (aClaude a) (aProjectID a) of
             Inl err \<Rightarrow> Inl (''claude analysis failed: '' @ err)
           | Inr result \<Rightarrow> Inr (postProcess arch result)))"

section \<open>The report sink (internal/api)\<close>

text \<open>
  What \<open>SendAnalysis\<close> reads from outside the program: the stored API key, the
  encoding of the payload (the report, the agent version and the platform) by
  \<open>encoding/json\<close>, the construction of a request by \<open>net/http\<close> and the round trip
  to the server; each may fail with an error text. The header of a request is a map
  from a key to the values set for it; the three keys the code sets are in canonical
  form already.
\<close>

record Request =
  reqMethod :: string
  reqURL :: string
  reqHeader :: "string \<rightharpoonup> string list"
  reqBody :: string

record Response =
  StatusCode :: int
  Body :: string

record ApiWorld =
  GetAPIKey :: "error + string"
  Marshal :: "CodeAnalysis \<Rightarrow> string \<Rightarrow> string \<Rightarrow> error + string"
  NewRequest :: "string \<Rightarrow> string \<Rightarrow> string \<Rightarrow> error + Request"
  Do :: "Request \<Rightarrow> error + Response"

record ApiClient =
  baseURL :: string

definition Header_Set :: "string \<Rightarrow> string \<Rightarrow> Request \<Rightarrow> Request" where
  "Header_Set key v req = req\<lparr>reqHeader := (reqHeader req)(key \<mapsto> [v])\<rparr>"

definition userAgent :: string where
  "userAgent = ''CloudPork-Agent/1.0''"

text \<open>\<open>SendAnalysis\<close>: \<open>None\<close> is the nil error.\<close>

definition SendAnalysis :: "ApiWorld \<Rightarrow> ApiClient \<Rightarrow> CodeAnalysis \<Rightarrow> error option" where
  "SendAnalysis w c analysis =
     (case GetAPIKey w of
        Inl err \<Rightarrow> Some (''no API key found: '' @ err)
      | Inr apiKey \<Rightarrow>
     (case Marshal w analysis ''1.0.0'' ''cli'' of
        Inl err \<Rightarrow> Some (''failed to marshal analysis: '' @ err)
      | Inr jsonData \<Rightarrow>
     (let url = baseURL c @ ''/v1/analysis''
      in case NewRequest w ''POST'' url jsonData of
        Inl err \<Rightarrow> Some (''failed to create request: '' @ err)
      | Inr req \<Rightarrow>
     (let req = Header_Set ''Content-Type'' ''application/json'' req;
          req = Header_Set ''Authorization'' (''Bearer '' @ apiKey) req;
          req = Header_Set ''User-Agent'' userAgent req
      in case Do w req of
        Inl err \<Rightarrow> Some (''request failed: '' @ err)
      | Inr resp \<Rightarrow>
          if StatusCode resp \<noteq> 200 \<and> StatusCode resp \<noteq> 201
          then Some (''API request failed with status '' @ show_int (StatusCode resp) @
                     '': '' @ Body resp)
          else None))))"

section \<open>Auxiliary notions for the proofs\<close>

text \<open>The two-step clamp that \<open>validateResourceEstimates\<close> applies to each field.\<close>

definition clamp_int :: "int \<Rightarrow> int \<Rightarrow> int \<Rightarrow> int" where
  "clamp_int lo hi x = (let x = (if x < lo then lo else x) in if x > hi then hi else x)"

definition clamp_cpu :: "float64 \<Rightarrow> float64" where
  "clamp_cpu x = (let x = (if f64_less x (f64_round (1 / 10)) then f64_round (1 / 10) else x)
                  in if f64_greater x (Finite 32) then Finite 32 else x)"

text \<open>The two defaults that \<open>postProcess\<close> applies.\<close>

definition default_name :: "string \<Rightarrow> string" where
  "default_name s = (if s = [] then ''Unknown'' else s)"

definition default_complexity :: "int \<Rightarrow> int" where
  "default_complexity c = (if c = 0 then 50 else c)"

text \<open>The report whose fields all hold Go's zero value.\<close>

definition zeroReport :: CodeAnalysis where
  "zeroReport = newCodeAnalysis [] 0 []"

text \<open>A report on which every step of the estimate is exact: 1000 * 1 * 2 * 1.5.\<close>

definition sampleReport :: CodeAnalysis where
  "sampleReport = zeroReport\<lparr>ApiEndpoints := 20, BackgroundJobs := [''emailer''],
                              ComplexityScore := 50\<rparr>"


text \<open>A report on which the \<open>float64\<close> product falls just below the exact one, 246.\<close>

definition truncReport :: CodeAnalysis where
  "truncReport = zeroReport\<lparr>ApiEndpoints := 41, ComplexityScore := 3\<rparr>"

text \<open>A number of CPU cores within the range of the specification, [0.1, 32].\<close>

definition cpu_in_range :: "float64 \<Rightarrow> bool" where
  "cpu_in_range x = (case x of Finite c \<Rightarrow> 1 / 10 \<le> c \<and> c \<le> 32 | _ \<Rightarrow> False)"

text \<open>The greater of two doubles, as \<open>if b < a then a else b\<close>.\<close>

definition f64_max :: "float64 \<Rightarrow> float64 \<Rightarrow> float64" where
  "f64_max a b = (if f64_less b a then a else b)"

text \<open>
  The formula of the specification for the estimated users, read in exact arithmetic:
  \<open>clamp(1000 * (complexity/50) * max(0.5, endpoints/10) * (1.5 if background_jobs
  non-empty else 1.0), 100, 1_000_000)\<close>. It is compared with the code below.
\<close>

definition spec_estimated_users :: "int \<Rightarrow> int \<Rightarrow> string list \<Rightarrow> real" where
  "spec_estimated_users complexity endpoints background_jobs =
     max 100 (min 1000000
       (1000 * (of_int complexity / 50) * max (1 / 2) (of_int endpoints / 10)
          * (if background_jobs \<noteq> [] then 3 / 2 else 1)))"

text \<open>
  The product of that formula, read in \<open>float64\<close> arithmetic from left to right.
\<close>

definition spec_product_f64 :: "int \<Rightarrow> int \<Rightarrow> string list \<Rightarrow> float64" where
  "spec_product_f64 complexity endpoints background_jobs =
     f64_mul
       (f64_mul (f64_mul (Finite 1000) (f64_div (f64_of_int complexity) (Finite 50)))
                (f64_max (Finite (1 / 2)) (f64_div (f64_of_int endpoints) (Finite 10))))
       (if background_jobs \<noteq> [] then Finite (3 / 2) else Finite 1)"

text \<open>
  The vocabulary and the function of the specification for the cache technologies:
  the names of \<open>{redis, memcached, in-process cache, CDN, browser cache}\<close> that occur
  in the lower-cased text, in the order of the vocabulary. It is compared with the code
  below.
\<close>

definition spec_cache_vocabulary :: "string list" where
  "spec_cache_vocabulary =
     [''redis'', ''memcached'', ''in-process cache'', ''CDN'', ''browser cache'']"

definition spec_extract_cache_technologies :: "Unicode \<Rightarrow> string \<Rightarrow> string list" where
  "spec_extract_cache_technologies u text =
     filter (\<lambda>name. Contains (ToLower u text) name) spec_cache_vocabulary"

text \<open>
  Worlds for the examples: one in which the tool is installed and a run fails on the
  prompts that satisfy \<open>P\<close> and prints nothing on the others, and one in which every run
  prints \<open>output\<close>; a server that answers a request bearing the stored key with \<open>resp\<close>
  and refuses any other request with status 401.
\<close>

definition failingWorld :: "(string \<Rightarrow> bool) \<Rightarrow> World" where
  "failingWorld P =
     \<lparr>StatNotExist = (\<lambda>path. False), LookPath = True,
      RunClaude = (\<lambda>prompt dir. if P prompt then Inl (''exit status 1'', ''boom'') else Inr []),
      Unmarshal = (\<lambda>text. None), Now = 0\<rparr>"

definition answeringWorld :: "string \<Rightarrow> World" where
  "answeringWorld output =
     \<lparr>StatNotExist = (\<lambda>path. False), LookPath = True,
      RunClaude = (\<lambda>prompt dir. Inr output),
      Unmarshal = (\<lambda>text. None), Now = 0\<rparr>"

text \<open>
  An excerpt of the tables of package \<open>unicode\<close>, for the examples: the tables on
  Latin-1, the capital I with dot above \<open>U+0130\<close>, the long s \<open>U+017F\<close> and the Kelvin
  sign \<open>U+212A\<close>, and the white space; every other rune is taken as caseless and as
  neither a letter nor a digit.
\<close>

definition latin1Unicode :: Unicode where
  "latin1Unicode =
     \<lparr>LowerCase = (\<lambda>r. if 0xC0 \<le> r \<and> r \<le> 0xDE \<and> r \<noteq> 0xD7 then r + 32
                       else if r = 0x130 then 0x69 else if r = 0x212A then 0x6B else r),
      TitleCase = (\<lambda>r. if 0xE0 \<le> r \<and> r \<le> 0xFE \<and> r \<noteq> 0xF7 then r - 32
                       else if r = 0xFF then 0x178 else if r = 0xB5 then 0x39C
                       else if r = 0x17F then 0x53 else r),
      IsLetterBeyond = (\<lambda>r. r = 0xAA \<or> r = 0xB5 \<or> r = 0xBA
                            \<or> (0xC0 \<le> r \<and> r \<le> 0xFF \<and> r \<noteq> 0xD7 \<and> r \<noteq> 0xF7)
                            \<or> r = 0x130 \<or> r = 0x17F \<or> r = 0x212A),
      IsDigitBeyond = (\<lambda>r. False),
      WhiteSpace = (\<lambda>r. r = 0x1680 \<or> (0x2000 \<le> r \<and> r \<le> 0x200A) \<or> r = 0x2028
                        \<or> r = 0x2029 \<or> r = 0x202F \<or> r = 0x205F \<or> r = 0x3000)\<rparr>"

definition someClient :: Client where
  "someClient = \<lparr>projectDir = ''/src''\<rparr>"

definition toolError :: string where
  "toolError = ''claude command failed: exit status 1'' @ [newline] @ ''Output: boom''"

definition respondingWorld :: "Response \<Rightarrow> ApiWorld" where
  "respondingWorld resp =
     \<lparr>GetAPIKey = Inr ''key'',
      Marshal = (\<lambda>analysis version platform. Inr ''{}''),
      NewRequest = (\<lambda>method url body.
         Inr \<lparr>reqMethod = method, reqURL = url, reqHeader = Map.empty, reqBody = body\<rparr>),
      Do = (\<lambda>req. if reqHeader req ''Authorization'' = Some [''Bearer key''] then Inr resp
                  else Inr \<lparr>StatusCode = 401, Body = ''unauthorized''\<rparr>)\<rparr>"

definition someApiClient :: ApiClient where
  "someApiClient = \<lparr>baseURL = ''https://api.cloudpork.com''\<rparr>"

text \<open>
  For the proof that a captured number is not negative: a regex that can consume only
  digits; a regex in which every group is such a regex; a stack of a matcher outside
  any group; a stack inside a group, opened at \<open>s0\<close>, that has consumed only digits
  since. A digit token is a rune read from digit bytes; in an ASCII token, a rune below
  \<open>0x80\<close> was read from its own byte.
\<close>

definition digit_token :: "token \<Rightarrow> bool" where
  "digit_token t = list_all is_digit (snd t)"

definition ascii_token :: "token \<Rightarrow> bool" where
  "ascii_token t = (fst t < 0x80 \<longrightarrow> snd t = [byte_char (fst t)])"

fun digit_rx :: "regex \<Rightarrow> bool" where
  "digit_rx Eps = True"
| "digit_rx (Class c) = (c = CDigit)"
| "digit_rx (Cat r1 r2) = (digit_rx r1 \<and> digit_rx r2)"
| "digit_rx (Alt r1 r2) = (digit_rx r1 \<and> digit_rx r2)"
| "digit_rx (Opt r) = digit_rx r"
| "digit_rx (Star c) = (c = CDigit)"
| "digit_rx (Plus c) = (c = CDigit)"
| "digit_rx (LazyStar c) = False"
| "digit_rx (Group n r) = False"

fun digit_groups :: "regex \<Rightarrow> bool" where
  "digit_groups (Cat r1 r2) = (digit_groups r1 \<and> digit_groups r2)"
| "digit_groups (Alt r1 r2) = (digit_groups r1 \<and> digit_groups r2)"
| "digit_groups (Opt r) = digit_groups r"
| "digit_groups (Group n r) = digit_rx r"
| "digit_groups r = True"

fun plain_items :: "item list \<Rightarrow> bool" where
  "plain_items [] = True"
| "plain_items (Rx r # k) = (digit_groups r \<and> plain_items k)"
| "plain_items (Close n s0 # k) = False"

fun open_items :: "item list \<Rightarrow> token list \<Rightarrow> bool" where
  "open_items [] s = False"
| "open_items (Rx r # k) s = (digit_rx r \<and> open_items k s)"
| "open_items (Close n s0 # k) s =
     (plain_items k \<and> (\<exists>d. s0 = d @ s \<and> list_all digit_token d))"

definition digit_captures :: "captures \<Rightarrow> bool" where
  "digit_captures caps = list_all (\<lambda>nt. list_all is_digit (snd nt)) caps"

section \<open>Properties of the arithmetic\<close>

text \<open>
  \<open>ilog2 x\<close> is the exponent of the binade of \<open>x\<close>, and \<open>round_even\<close> moves its
  argument by a half at most.
\<close>

lemma ilog2_bounds:
  assumes "0 < x"
  shows "scale2 1 (ilog2 x) \<le> x \<and> x < scale2 1 (ilog2 x + 1)"
proof (cases "1 \<le> x")
  case True
  let ?n = "\<lfloor>x\<rfloor>"
  have n: "0 < ?n" using True by simp
  from bitlen_bounds[OF n] have lo: "2 ^ nat (bitlen ?n - 1) \<le> ?n" and hi: "?n < 2 ^ nat (bitlen ?n)"
    by simp_all
  have b: "1 \<le> bitlen ?n" using n by (simp add: bitlen_alt_def)
  have e: "ilog2 x = bitlen ?n - 1" using True by (simp add: ilog2_def)
  have "real_of_int (2 ^ nat (bitlen ?n - 1)) \<le> real_of_int ?n" using lo by linarith
  also have "\<dots> \<le> x" by simp
  finally have 1: "scale2 1 (ilog2 x) \<le> x" using b by (simp add: e scale2_def)
  have "?n + 1 \<le> 2 ^ nat (bitlen ?n)" using hi by simp
  then have "real_of_int (?n + 1) \<le> real_of_int (2 ^ nat (bitlen ?n))" by linarith
  then have u: "real_of_int ?n + 1 \<le> 2 ^ nat (bitlen ?n)" by simp
  have "x < real_of_int ?n + 1" by linarith
  with u have "x < 2 ^ nat (bitlen ?n)" by linarith
  then have 2: "x < scale2 1 (ilog2 x + 1)" using b by (simp add: e scale2_def)
  from 1 2 show ?thesis ..
next
  case False
  let ?y = "1 / x"
  let ?m = "\<lceil>?y\<rceil> - 1"
  have y: "1 < ?y" using False assms by simp
  then have "2 \<le> \<lceil>?y\<rceil>" by linarith
  then have m: "0 < ?m" by simp
  have my: "real_of_int ?m < ?y" "?y \<le> real_of_int ?m + 1" by linarith+
  from bitlen_bounds[OF m] have lo: "2 ^ nat (bitlen ?m - 1) \<le> ?m" and hi: "?m < 2 ^ nat (bitlen ?m)"
    by simp_all
  have b: "1 \<le> bitlen ?m" using m by (simp add: bitlen_alt_def)
  have e: "ilog2 x = - bitlen ?m" using False by (simp add: ilog2_def)
  have "?m + 1 \<le> 2 ^ nat (bitlen ?m)" using hi by simp
  then have "real_of_int (?m + 1) \<le> real_of_int (2 ^ nat (bitlen ?m))" by linarith
  then have "real_of_int ?m + 1 \<le> 2 ^ nat (bitlen ?m)" by simp
  with my(2) have yh: "?y \<le> 2 ^ nat (bitlen ?m)" by linarith
  have "real_of_int (2 ^ nat (bitlen ?m - 1)) \<le> real_of_int ?m" using lo by linarith
  then have "2 ^ nat (bitlen ?m - 1) \<le> real_of_int ?m" by simp
  with my(1) have yl: "2 ^ nat (bitlen ?m - 1) < ?y" by linarith
  have 1: "1 / 2 ^ nat (bitlen ?m) \<le> x"
    using yh assms by (simp add: field_simps)
  have 2: "x < 1 / 2 ^ nat (bitlen ?m - 1)"
    using yl assms by (simp add: field_simps)
  have s1: "scale2 1 (ilog2 x) = 1 / 2 ^ nat (bitlen ?m)" using b by (simp add: e scale2_def)
  have s2: "scale2 1 (ilog2 x + 1) = 1 / 2 ^ nat (bitlen ?m - 1)"
  proof (cases "bitlen ?m = 1")
    case True
    then show ?thesis by (simp add: e scale2_def)
  next
    case False
    with b have "1 < bitlen ?m" by simp
    then show ?thesis by (simp add: e scale2_def)
  qed
  from 1 2 s1 s2 show ?thesis by simp
qed

lemma round_even_nearest: "\<bar>of_int (round_even y) - y\<bar> \<le> 1 / 2"
  unfolding round_even_def Let_def by (simp; linarith)

lemmas f64_eval =
  f64_of_int_def f64_round_def ilog2_def round_even_def scale2_def compute_bitlen Let_def

lemma f64_tenth: "f64_round (1 / 10) = Finite (3602879701896397 / 36028797018963968)"
  by (simp add: f64_round_def ilog2_def round_even_def scale2_def compute_bitlen Let_def)

lemma f64_thousand: "f64_of_int 1000 = Finite 1000"
  by (simp add: f64_eval)

section \<open>The rounding error of the user estimate\<close>

text \<open>
  The estimate is computed in \<open>float64\<close>; the specification states the formula over the
  reals. The lemmas of this section bound the rounding error of the four operations and
  conclude that, for a complexity score and an endpoint count of at most a million in
  absolute value, the estimate of the code is the value of the exact formula or one less.
\<close>

lemma scale2_powr: "scale2 x e = x * 2 powr (real_of_int e)"
proof (cases "0 \<le> e")
  case True
  have "(2::real) powr real (nat e) = 2 ^ nat e" by (rule powr_realpow) simp
  moreover have "real (nat e) = real_of_int e" using True by simp
  ultimately have "(2::real) powr (real_of_int e) = 2 ^ nat e" by metis
  with True show ?thesis by (simp add: scale2_def)
next
  case False
  have "(2::real) powr real (nat (- e)) = 2 ^ nat (- e)" by (rule powr_realpow) simp
  moreover have "real (nat (- e)) = - real_of_int e" using False by simp
  ultimately have "(2::real) powr (- real_of_int e) = 2 ^ nat (- e)" by metis
  then have "(2::real) powr (real_of_int e) = inverse (2 ^ nat (- e))"
    by (metis powr_minus minus_minus)
  with False show ?thesis by (simp add: scale2_def divide_inverse)
qed

lemma ilog2_powr:
  assumes "0 < x"
  shows "2 powr (real_of_int (ilog2 x)) \<le> x" "x < 2 powr (real_of_int (ilog2 x + 1))"
  using ilog2_bounds[OF assms] by (simp_all add: scale2_powr)

lemma two_powr_53: "(2::real) powr 53 = 2 ^ 53"
  by (simp only: powr_numeral)

lemma two_powr_neg53: "(2::real) powr (- 53) = 1 / 2 ^ 53"
  by (simp only: powr_minus_divide two_powr_53)

lemma two_powr_1023: "(2::real) * 2 powr 1023 = 2 ^ 1024"
proof -
  have "(2::real) powr 1023 = 2 ^ 1023" by (simp only: powr_numeral)
  moreover have "(2::real) * 2 ^ 1023 = 2 ^ Suc 1023" by (simp only: power_Suc)
  moreover have "Suc 1023 = 1024" by simp
  ultimately show ?thesis by metis
qed

text \<open>Rounding a number of the normal range moves it by a fraction \<open>2^-53\<close> at most.\<close>

lemma f64_round_error:
  assumes lo: "2 powr (- 1022) \<le> \<bar>x\<bar>" and hi: "\<bar>x\<bar> < 2 powr 1023"
  shows "\<exists>y. f64_round x = Finite y \<and> \<bar>y - x\<bar> \<le> \<bar>x\<bar> / 2 ^ 53"
proof -
  have "(0::real) < 2 powr (- 1022)" by simp
  with lo have pos: "0 < \<bar>x\<bar>" by linarith
  then have nz: "x \<noteq> 0" by simp
  define k where "k = ilog2 \<bar>x\<bar>"
  have k1: "2 powr (real_of_int k) \<le> \<bar>x\<bar>" and k2: "\<bar>x\<bar> < 2 powr (real_of_int (k + 1))"
    using ilog2_powr[OF pos] by (simp_all add: k_def)
  have "- 1022 \<le> k"
  proof (rule ccontr)
    assume "\<not> - 1022 \<le> k"
    then have "real_of_int (k + 1) \<le> - 1022" by simp
    then have "(2::real) powr (real_of_int (k + 1)) \<le> 2 powr (- 1022)"
      by (rule powr_mono) simp
    with k2 lo show False by linarith
  qed
  then have e: "max (k - 52) (- 1074) = k - 52" by simp
  define t where "t = real_of_int (k - 52)"
  define p where "p = (2::real) powr t"
  define z where "z = x * 2 powr (- t)"
  define y where "y = of_int (round_even z) * p"
  have p0: "0 < p" by (simp add: p_def)
  have "(2::real) powr (- t) * 2 powr t = 1"
    by (simp add: powr_add[symmetric])
  then have xz: "z * p = x"
    unfolding z_def p_def by (simp add: mult.assoc)
  have "y - x = of_int (round_even z) * p - z * p" by (simp add: y_def xz)
  also have "\<dots> = (of_int (round_even z) - z) * p" by (simp add: left_diff_distrib)
  finally have "\<bar>y - x\<bar> = \<bar>of_int (round_even z) - z\<bar> * p"
    using p0 by (simp add: abs_mult)
  also have "\<dots> \<le> (1 / 2) * p"
    using round_even_nearest[of z] p0 by (intro mult_right_mono) simp_all
  also have "\<dots> = 2 powr (real_of_int k) / 2 ^ 53"
  proof -
    have "t = real_of_int k + (- 53) + 1" by (simp add: t_def)
    then have "p = 2 powr (real_of_int k) * 2 powr (- 53) * 2 powr 1"
      unfolding p_def by (simp only: powr_add)
    then show ?thesis by (simp add: two_powr_neg53)
  qed
  also have "\<dots> \<le> \<bar>x\<bar> / 2 ^ 53" using k1 by (simp add: divide_right_mono)
  finally have err: "\<bar>y - x\<bar> \<le> \<bar>x\<bar> / 2 ^ 53" .
  have "\<bar>x\<bar> / 2 ^ 53 \<le> \<bar>x\<bar>" by (simp add: field_simps)
  with err have "\<bar>y\<bar> \<le> 2 * \<bar>x\<bar>" by linarith
  also have "\<dots> < 2 * 2 powr 1023" using hi by simp
  finally have "\<bar>y\<bar> < 2 ^ 1024" by (simp only: two_powr_1023)
  then have no: "\<not> 2 ^ 1024 \<le> \<bar>y\<bar>" by simp
  have s1: "scale2 x (- (k - 52)) = z"
    by (simp add: scale2_powr z_def t_def)
  have s2: "scale2 (of_int (round_even z)) (k - 52) = y"
    by (simp add: scale2_powr y_def p_def t_def)
  have "f64_round x = Finite y"
    using nz no
    unfolding f64_round_def Let_def k_def[symmetric] e s1 s2
    by simp
  with err show ?thesis by blast
qed

lemma two_powr_small: "(2::real) powr (- 1022) \<le> 1 / 1000"
proof -
  have "(2::real) powr 1022 = 2 ^ 1022" by (simp only: powr_numeral)
  then have "(2::real) powr (- 1022) = 1 / 2 ^ 1022" by (simp only: powr_minus_divide)
  also have "\<dots> \<le> 1 / 2 ^ 10" by (intro divide_left_mono power_increasing) simp_all
  also have "\<dots> \<le> 1 / 1000" by simp
  finally show ?thesis .
qed

lemma two_powr_large: "(10::real) ^ 15 < 2 powr 1023"
proof -
  have "(10::real) ^ 15 < 2 ^ 50" by simp
  also have "(2::real) ^ 50 \<le> 2 ^ 1023" by (intro power_increasing) simp_all
  also have "(2::real) ^ 1023 = 2 powr 1023" by (simp only: powr_numeral)
  finally show ?thesis .
qed

text \<open>One rounding of a number that is zero or between a thousandth and \<open>10^15\<close>.\<close>

lemma f64_round_step:
  assumes "x = 0 \<or> 1 / 1000 \<le> \<bar>x\<bar>" and "\<bar>x\<bar> \<le> 10 ^ 15"
  shows "\<exists>y. f64_round x = Finite y \<and> \<bar>y - x\<bar> \<le> \<bar>x\<bar> / 2 ^ 53"
proof (cases "x = 0")
  case True
  then show ?thesis by (simp add: f64_round_def)
next
  case False
  with assms(1) have "1 / 1000 \<le> \<bar>x\<bar>" by simp
  with two_powr_small have lo: "2 powr (- 1022) \<le> \<bar>x\<bar>" by linarith
  from assms(2) two_powr_large have hi: "\<bar>x\<bar> < 2 powr 1023" by linarith
  from f64_round_error[OF lo hi] show ?thesis .
qed

lemma rel_round:
  fixes z z' fz r :: real
  assumes "\<bar>z' - z\<bar> \<le> r * \<bar>z\<bar>" and "0 \<le> r" and "\<bar>fz - z'\<bar> \<le> \<bar>z'\<bar> / 2 ^ 53"
  shows "\<bar>fz - z\<bar> \<le> (r + (1 + r) / 2 ^ 53) * \<bar>z\<bar>"
proof -
  have "\<bar>z'\<bar> \<le> \<bar>z\<bar> + r * \<bar>z\<bar>" using assms(1) by linarith
  then have "\<bar>z'\<bar> / 2 ^ 53 \<le> (\<bar>z\<bar> + r * \<bar>z\<bar>) / 2 ^ 53" by (simp add: divide_right_mono)
  with assms(3) have "\<bar>fz - z'\<bar> \<le> (\<bar>z\<bar> + r * \<bar>z\<bar>) / 2 ^ 53" by linarith
  with assms(1) have "\<bar>fz - z\<bar> \<le> r * \<bar>z\<bar> + (\<bar>z\<bar> + r * \<bar>z\<bar>) / 2 ^ 53" by linarith
  also have "\<dots> = (r + (1 + r) / 2 ^ 53) * \<bar>z\<bar>" by (simp add: algebra_simps add_divide_distrib)
  finally show ?thesis .
qed

lemma rel_mult:
  fixes a a' b b' p q :: real
  assumes "\<bar>a' - a\<bar> \<le> p * \<bar>a\<bar>" and "\<bar>b' - b\<bar> \<le> q * \<bar>b\<bar>" and "0 \<le> p" and "0 \<le> q"
  shows "\<bar>a' * b' - a * b\<bar> \<le> (p + q + p * q) * \<bar>a * b\<bar>"
proof -
  have "a' * b' - a * b = (a' - a) * b' + a * (b' - b)" by (simp add: algebra_simps)
  then have "\<bar>a' * b' - a * b\<bar> \<le> \<bar>a' - a\<bar> * \<bar>b'\<bar> + \<bar>a\<bar> * \<bar>b' - b\<bar>"
    by (metis abs_mult abs_triangle_ineq)
  also have "\<dots> \<le> (p * \<bar>a\<bar>) * (\<bar>b\<bar> + q * \<bar>b\<bar>) + \<bar>a\<bar> * (q * \<bar>b\<bar>)"
  proof -
    have "\<bar>b'\<bar> \<le> \<bar>b\<bar> + q * \<bar>b\<bar>" using assms(2) by linarith
    then have "\<bar>a' - a\<bar> * \<bar>b'\<bar> \<le> (p * \<bar>a\<bar>) * (\<bar>b\<bar> + q * \<bar>b\<bar>)"
      using assms(1) by (intro mult_mono) (simp_all add: assms)
    moreover have "\<bar>a\<bar> * \<bar>b' - b\<bar> \<le> \<bar>a\<bar> * (q * \<bar>b\<bar>)"
      using assms(2) by (intro mult_left_mono) simp_all
    ultimately show ?thesis by linarith
  qed
  also have "\<dots> = (p + q + p * q) * \<bar>a * b\<bar>" by (simp add: algebra_simps abs_mult)
  finally show ?thesis .
qed

text \<open>
  Rounding an approximation: when \<open>z'\<close> approximates \<open>z\<close> with relative error \<open>r\<close>,
  the double nearest to \<open>z'\<close> approximates \<open>z\<close> with relative error \<open>r + 2^-52\<close>.
\<close>

lemma f64_round_rel:
  fixes z z' r :: real
  assumes a: "\<bar>z' - z\<bar> \<le> r * \<bar>z\<bar>" and r: "0 \<le> r" "r \<le> 1 / 4"
    and lo: "z = 0 \<or> 1 / 250 \<le> \<bar>z\<bar>" and hi: "\<bar>z\<bar> \<le> 10 ^ 14"
  shows "\<exists>y. f64_round z' = Finite y \<and> \<bar>y - z\<bar> \<le> (r + 2 / 2 ^ 53) * \<bar>z\<bar>"
proof -
  have "r * \<bar>z\<bar> \<le> (1 / 4) * \<bar>z\<bar>" using r by (intro mult_right_mono) simp_all
  then have rz: "r * \<bar>z\<bar> \<le> \<bar>z\<bar> / 4" by simp
  have z'lo: "z' = 0 \<or> 1 / 1000 \<le> \<bar>z'\<bar>"
  proof (cases "z = 0")
    case True
    with a show ?thesis by simp
  next
    case False
    with lo have "1 / 250 \<le> \<bar>z\<bar>" by simp
    moreover have "\<bar>z\<bar> - \<bar>z\<bar> / 4 \<le> \<bar>z'\<bar>" using a rz by linarith
    ultimately show ?thesis by linarith
  qed
  have "\<bar>z'\<bar> \<le> \<bar>z\<bar> + \<bar>z\<bar> / 4" using a rz by linarith
  with hi have "\<bar>z'\<bar> \<le> (5 / 4) * 10 ^ 14" by linarith
  also have "\<dots> \<le> 10 ^ 15" by simp
  finally have z'hi: "\<bar>z'\<bar> \<le> 10 ^ 15" .
  from f64_round_step[OF z'lo z'hi] obtain y where y: "f64_round z' = Finite y"
    and e: "\<bar>y - z'\<bar> \<le> \<bar>z'\<bar> / 2 ^ 53" by blast
  from rel_round[OF a r(1) e] have "\<bar>y - z\<bar> \<le> (r + (1 + r) / 2 ^ 53) * \<bar>z\<bar>" .
  also have "\<dots> \<le> (r + 2 / 2 ^ 53) * \<bar>z\<bar>"
    using r by (intro mult_right_mono add_left_mono divide_right_mono) simp_all
  finally show ?thesis using y by blast
qed

lemma rel_scale:
  fixes z z' r k :: real
  assumes "\<bar>z' - z\<bar> \<le> r * \<bar>z\<bar>"
  shows "\<bar>k * z' - k * z\<bar> \<le> r * \<bar>k * z\<bar>" "\<bar>z' / k - z / k\<bar> \<le> r * \<bar>z / k\<bar>"
proof -
  have "\<bar>k * z' - k * z\<bar> = \<bar>k\<bar> * \<bar>z' - z\<bar>" by (simp add: abs_mult right_diff_distrib[symmetric])
  also have "\<dots> \<le> \<bar>k\<bar> * (r * \<bar>z\<bar>)" using assms by (intro mult_left_mono) simp_all
  finally show "\<bar>k * z' - k * z\<bar> \<le> r * \<bar>k * z\<bar>" by (simp add: abs_mult mult_ac)
  have "\<bar>z' / k - z / k\<bar> = \<bar>z' - z\<bar> / \<bar>k\<bar>" by (simp add: diff_divide_distrib[symmetric])
  also have "\<dots> \<le> (r * \<bar>z\<bar>) / \<bar>k\<bar>" using assms by (intro divide_right_mono) simp_all
  finally show "\<bar>z' / k - z / k\<bar> \<le> r * \<bar>z / k\<bar>" by simp
qed

text \<open>\<open>float64(n) / d\<close> for an integer \<open>n\<close> and a constant \<open>d\<close> between 1 and 50.\<close>

lemma f64_int_div:
  fixes n :: int and d :: real
  assumes n: "\<bar>n\<bar> \<le> 10 ^ 6" and d: "1 \<le> d" "d \<le> 50"
  shows "\<exists>q. f64_div (f64_of_int n) (Finite d) = Finite q
           \<and> \<bar>q - of_int n / d\<bar> \<le> (4 / 2 ^ 53) * \<bar>of_int n / d\<bar>"
proof -
  let ?N = "real_of_int n"
  have N0: "?N = 0 \<or> 1 \<le> \<bar>?N\<bar>"
  proof (cases "n = 0")
    case True
    then show ?thesis by simp
  next
    case False
    then have "1 \<le> \<bar>n\<bar>" by simp
    then have "1 \<le> real_of_int \<bar>n\<bar>" by (simp only: of_int_1_le_iff)
    then show ?thesis by simp
  qed
  have "real_of_int \<bar>n\<bar> \<le> real_of_int (10 ^ 6)" using n by (simp only: of_int_le_iff)
  then have Nhi: "\<bar>?N\<bar> \<le> 10 ^ 6" by simp
  have N0': "?N = 0 \<or> 1 / 250 \<le> \<bar>?N\<bar>" using N0 by linarith
  have "(10::real) ^ 6 \<le> 10 ^ 14" by simp
  with Nhi have Nhi': "\<bar>?N\<bar> \<le> 10 ^ 14" by linarith
  have s: "\<bar>?N - ?N\<bar> \<le> 0 * \<bar>?N\<bar>" by simp
  have r0: "(0::real) \<le> 0" "(0::real) \<le> 1 / 4" by simp_all
  from f64_round_rel[OF s r0 N0' Nhi'] obtain y0 where y0: "f64_round ?N = Finite y0"
    and e0: "\<bar>y0 - ?N\<bar> \<le> (0 + 2 / 2 ^ 53) * \<bar>?N\<bar>" by blast
  then have e0': "\<bar>y0 - ?N\<bar> \<le> (2 / 2 ^ 53) * \<bar>?N\<bar>" by simp
  have 1: "\<bar>y0 / d - ?N / d\<bar> \<le> (2 / 2 ^ 53) * \<bar>?N / d\<bar>" by (rule rel_scale(2)[OF e0'])
  have lo: "?N / d = 0 \<or> 1 / 250 \<le> \<bar>?N / d\<bar>"
  proof (cases "n = 0")
    case True
    then show ?thesis by simp
  next
    case False
    with N0 have "1 \<le> \<bar>?N\<bar>" by simp
    then have "1 / d \<le> \<bar>?N\<bar> / d" using d by (simp add: divide_right_mono)
    moreover have "1 / 50 \<le> 1 / d" using d by (simp add: field_simps)
    ultimately have "1 / 250 \<le> \<bar>?N\<bar> / d" by linarith
    then show ?thesis using d by simp
  qed
  have "\<bar>?N\<bar> / d \<le> \<bar>?N\<bar> / 1" using d by (intro divide_left_mono) simp_all
  with Nhi' have "\<bar>?N\<bar> / d \<le> 10 ^ 14" by simp
  then have hi: "\<bar>?N / d\<bar> \<le> 10 ^ 14" using d by simp
  have r1: "(0::real) \<le> 2 / 2 ^ 53" "(2::real) / 2 ^ 53 \<le> 1 / 4" by simp_all
  from f64_round_rel[OF 1 r1 lo hi] obtain q where q: "f64_round (y0 / d) = Finite q"
    and eq: "\<bar>q - ?N / d\<bar> \<le> (2 / 2 ^ 53 + 2 / 2 ^ 53) * \<bar>?N / d\<bar>" by blast
  have "f64_div (f64_of_int n) (Finite d) = Finite q"
    using y0 q d by (simp add: f64_of_int_def)
  moreover have "\<bar>q - ?N / d\<bar> \<le> (4 / 2 ^ 53) * \<bar>?N / d\<bar>" using eq by simp
  ultimately show ?thesis by blast
qed

text \<open>
  The product that \<open>estimateCurrentUsers\<close> truncates, for a complexity score and an
  endpoint count of at most a million in absolute value: it is a double within a
  quarter of the exact product.
\<close>

lemma users_product:
  fixes c e :: int and J :: real
  assumes c: "\<bar>c\<bar> \<le> 10 ^ 6" and e: "\<bar>e\<bar> \<le> 10 ^ 6" and J: "J = 1 \<or> J = 3 / 2"
  shows "\<exists>t. f64_mul
               (f64_mul (f64_mul (f64_of_int 1000) (f64_div (f64_of_int c) (Finite 50)))
                  (let m = f64_div (f64_of_int e) (Finite 10)
                   in if f64_less m (Finite (1 / 2)) then Finite (1 / 2) else m))
               (Finite J) = Finite t
           \<and> \<bar>t - 1000 * (of_int c / 50) * max (1 / 2) (of_int e / 10) * J\<bar> \<le> 1 / 4"
proof -
  define C where "C = real_of_int c"
  define E where "E = real_of_int e"
  define M where "M = max (1 / 2) (E / 10)"
  define u where "u = (1::real) / 2 ^ 53"
  have u: "0 < u" "u \<le> 1 / 1000000000000000" by (simp_all add: u_def)
  have C0: "C = 0 \<or> 1 \<le> \<bar>C\<bar>"
  proof (cases "c = 0")
    case True
    then show ?thesis by (simp add: C_def)
  next
    case False
    then have "1 \<le> \<bar>c\<bar>" by simp
    then have "1 \<le> real_of_int \<bar>c\<bar>" by (simp only: of_int_1_le_iff)
    then show ?thesis by (simp add: C_def)
  qed
  have "real_of_int \<bar>c\<bar> \<le> real_of_int (10 ^ 6)" using c by (simp only: of_int_le_iff)
  then have Chi: "\<bar>C\<bar> \<le> 1000000" by (simp add: C_def)
  have "real_of_int \<bar>e\<bar> \<le> real_of_int (10 ^ 6)" using e by (simp only: of_int_le_iff)
  then have Ehi: "\<bar>E\<bar> \<le> 1000000" by (simp add: E_def)
  have Mlo: "1 / 2 \<le> M" and Mhi: "M \<le> 100000" using Ehi by (simp_all add: M_def)
  from f64_int_div[OF c, of 50] obtain cm where
    cm: "f64_div (f64_of_int c) (Finite 50) = Finite cm"
    and cme: "\<bar>cm - C / 50\<bar> \<le> (4 * u) * \<bar>C / 50\<bar>"
    by (auto simp: C_def u_def)
  from f64_int_div[OF e, of 10] obtain ed where
    ed: "f64_div (f64_of_int e) (Finite 10) = Finite ed"
    and ede: "\<bar>ed - E / 10\<bar> \<le> (4 * u) * \<bar>E / 10\<bar>"
    by (auto simp: E_def u_def)
  define em where "em = (if ed < 1 / 2 then 1 / 2 else ed)"
  have em: "(let m = f64_div (f64_of_int e) (Finite 10)
             in if f64_less m (Finite (1 / 2)) then Finite (1 / 2) else m) = Finite em"
    by (simp add: ed em_def)
  have eme: "\<bar>em - M\<bar> \<le> (4 * u) * \<bar>M\<bar>"
  proof (cases "e \<le> 4")
    case True
    then have "real_of_int e \<le> real_of_int 4" by (simp only: of_int_le_iff)
    then have E4: "E \<le> 4" by (simp add: E_def)
    then have M: "M = 1 / 2" by (simp add: M_def)
    have "4 * u * \<bar>E / 10\<bar> \<le> (1 / 1000) * \<bar>E / 10\<bar>"
      using u by (intro mult_right_mono) simp_all
    with ede have "\<bar>ed - E / 10\<bar> \<le> \<bar>E / 10\<bar> / 1000" by simp
    with E4 have "ed < 1 / 2" by linarith
    then show ?thesis using u by (simp add: em_def M)
  next
    case False
    then have "5 \<le> e" by simp
    then have "real_of_int 5 \<le> real_of_int e" by (simp only: of_int_le_iff)
    then have E5: "5 \<le> E" by (simp add: E_def)
    then have M: "M = E / 10" by (simp add: M_def)
    show ?thesis
    proof (cases "ed < 1 / 2")
      case True
      then have "\<bar>em - M\<bar> \<le> \<bar>ed - E / 10\<bar>" using E5 by (simp add: em_def M)
      with ede show ?thesis by (simp add: M)
    next
      case False
      with ede show ?thesis by (simp add: em_def M)
    qed
  qed
  have r4: "0 \<le> 4 * u" "4 * u \<le> 1 / 4" using u by simp_all
  have z1: "\<bar>1000 * cm - 1000 * (C / 50)\<bar> \<le> (4 * u) * \<bar>1000 * (C / 50)\<bar>"
    by (rule rel_scale(1)[OF cme])
  have z1lo: "1000 * (C / 50) = 0 \<or> 1 / 250 \<le> \<bar>1000 * (C / 50)\<bar>" using C0 by auto
  have z1hi: "\<bar>1000 * (C / 50)\<bar> \<le> 10 ^ 14" using Chi by simp
  from f64_round_rel[OF z1 r4 z1lo z1hi] obtain t1 where
    t1: "f64_round (1000 * cm) = Finite t1"
    and t1e: "\<bar>t1 - 1000 * (C / 50)\<bar> \<le> (4 * u + 2 / 2 ^ 53) * \<bar>1000 * (C / 50)\<bar>" by blast
  from t1e have t1e': "\<bar>t1 - 1000 * (C / 50)\<bar> \<le> (6 * u) * \<bar>1000 * (C / 50)\<bar>"
    by (simp add: u_def)
  have r6: "0 \<le> 6 * u" using u by simp
  define r where "r = 6 * u + 4 * u + 6 * u * (4 * u)"
  have "24 * u \<le> 1" using u by simp
  then have "(24 * u) * u \<le> 1 * u" using u by (intro mult_right_mono) simp_all
  then have uu: "6 * u * (4 * u) \<le> u" by simp
  have "0 \<le> 6 * u * (4 * u)" using u by simp
  with uu u have r: "0 \<le> r" "r \<le> 11 * u" "r \<le> 1 / 4"
    unfolding r_def by linarith+
  have z2: "\<bar>t1 * em - 1000 * (C / 50) * M\<bar> \<le> r * \<bar>1000 * (C / 50) * M\<bar>"
    unfolding r_def by (rule rel_mult[OF t1e' eme r6 r4(1)])
  have abs2: "\<bar>1000 * (C / 50) * M\<bar> = 20 * (\<bar>C\<bar> * M)" using Mlo by (simp add: abs_mult)
  have z2lo: "1000 * (C / 50) * M = 0 \<or> 1 / 250 \<le> \<bar>1000 * (C / 50) * M\<bar>"
  proof (cases "C = 0")
    case True
    then show ?thesis by simp
  next
    case False
    with C0 have "1 \<le> \<bar>C\<bar>" by simp
    then have "1 * (1 / 2) \<le> \<bar>C\<bar> * M" using Mlo by (intro mult_mono) simp_all
    then have "1 / 250 \<le> 20 * (\<bar>C\<bar> * M)" by linarith
    then have "1 / 250 \<le> \<bar>1000 * (C / 50) * M\<bar>" unfolding abs2 .
    then show ?thesis by blast
  qed
  have "\<bar>C\<bar> * M \<le> 1000000 * 100000"
    using Chi Mhi Mlo by (intro mult_mono) simp_all
  then have "20 * (\<bar>C\<bar> * M) \<le> 2000000000000" by linarith
  then have z2hi': "\<bar>1000 * (C / 50) * M\<bar> \<le> 2000000000000" unfolding abs2 .
  then have z2hi: "\<bar>1000 * (C / 50) * M\<bar> \<le> 10 ^ 14" by simp
  from f64_round_rel[OF z2 r(1) r(3) z2lo z2hi] obtain t2 where
    t2: "f64_round (t1 * em) = Finite t2"
    and t2e: "\<bar>t2 - 1000 * (C / 50) * M\<bar> \<le> (r + 2 / 2 ^ 53) * \<bar>1000 * (C / 50) * M\<bar>" by blast
  define r' where "r' = r + 2 / 2 ^ 53"
  have r': "0 \<le> r'" "r' \<le> 13 * u" "r' \<le> 1 / 4" using r u by (simp_all add: r'_def u_def)
  have J0: "1 \<le> J" "J \<le> 3 / 2" using J by auto
  have "\<bar>J * t2 - J * (1000 * (C / 50) * M)\<bar> \<le> r' * \<bar>J * (1000 * (C / 50) * M)\<bar>"
    using t2e unfolding r'_def[symmetric] by (rule rel_scale(1))
  then have z3: "\<bar>t2 * J - 1000 * (C / 50) * M * J\<bar> \<le> r' * \<bar>1000 * (C / 50) * M * J\<bar>"
    by (simp add: mult.commute)
  have abs3: "\<bar>1000 * (C / 50) * M * J\<bar> = \<bar>1000 * (C / 50) * M\<bar> * J"
    using J0 by (simp add: abs_mult)
  have z3lo: "1000 * (C / 50) * M * J = 0 \<or> 1 / 250 \<le> \<bar>1000 * (C / 50) * M * J\<bar>"
  proof (cases "1000 * (C / 50) * M = 0")
    case True
    then show ?thesis by simp
  next
    case False
    with z2lo have "1 / 250 \<le> \<bar>1000 * (C / 50) * M\<bar>" by simp
    then have "(1 / 250) * 1 \<le> \<bar>1000 * (C / 50) * M\<bar> * J" using J0 by (intro mult_mono) simp_all
    then have "1 / 250 \<le> \<bar>1000 * (C / 50) * M\<bar> * J" by simp
    then have "1 / 250 \<le> \<bar>1000 * (C / 50) * M * J\<bar>" unfolding abs3 .
    then show ?thesis by blast
  qed
  have "\<bar>1000 * (C / 50) * M\<bar> * J \<le> 2000000000000 * (3 / 2)"
    using z2hi' J0 by (intro mult_mono) simp_all
  then have "\<bar>1000 * (C / 50) * M\<bar> * J \<le> 3000000000000" by simp
  then have z3hi': "\<bar>1000 * (C / 50) * M * J\<bar> \<le> 3000000000000" unfolding abs3 .
  then have z3hi: "\<bar>1000 * (C / 50) * M * J\<bar> \<le> 10 ^ 14" by simp
  from f64_round_rel[OF z3 r'(1) r'(3) z3lo z3hi] obtain t3 where
    t3: "f64_round (t2 * J) = Finite t3"
    and t3e: "\<bar>t3 - 1000 * (C / 50) * M * J\<bar> \<le> (r' + 2 / 2 ^ 53) * \<bar>1000 * (C / 50) * M * J\<bar>"
    by blast
  have "r' + 2 / 2 ^ 53 \<le> 15 * u" using r' by (simp add: u_def)
  also have "\<dots> \<le> 1 / 12000000000000" using u by simp
  finally have "(r' + 2 / 2 ^ 53) * \<bar>1000 * (C / 50) * M * J\<bar> \<le> (1 / 12000000000000) * 3000000000000"
    using z3hi' r' by (intro mult_mono) simp_all
  with t3e have fin: "\<bar>t3 - 1000 * (C / 50) * M * J\<bar> \<le> 1 / 4" by simp
  have "f64_mul
          (f64_mul (f64_mul (f64_of_int 1000) (f64_div (f64_of_int c) (Finite 50)))
             (let m = f64_div (f64_of_int e) (Finite 10)
              in if f64_less m (Finite (1 / 2)) then Finite (1 / 2) else m))
          (Finite J) = Finite t3"
    unfolding em cm f64_thousand by (simp add: t1 t2 t3)
  with fin show ?thesis unfolding C_def E_def M_def by blast
qed

text \<open>The exact product of the specification is an integer.\<close>

lemma spec_product_int:
  fixes c e :: int and J :: real
  assumes J: "J = 1 \<or> J = 3 / 2"
  shows "\<exists>n::int. 1000 * (of_int c / 50) * max (1 / 2) (of_int e / 10) * J = of_int n
           \<and> \<bar>n\<bar> \<le> 15 * \<bar>c\<bar> + 3 * (\<bar>c\<bar> * \<bar>e\<bar>)"
proof -
  have nn: "0 \<le> \<bar>c\<bar> * \<bar>e\<bar>" by simp
  have b1: "\<bar>10 * c\<bar> \<le> 15 * \<bar>c\<bar> + 3 * (\<bar>c\<bar> * \<bar>e\<bar>)"
    using nn by (simp add: abs_mult)
  have b2: "\<bar>15 * c\<bar> \<le> 15 * \<bar>c\<bar> + 3 * (\<bar>c\<bar> * \<bar>e\<bar>)"
    using nn by (simp add: abs_mult)
  have b3: "\<bar>2 * c * e\<bar> \<le> 15 * \<bar>c\<bar> + 3 * (\<bar>c\<bar> * \<bar>e\<bar>)"
    using nn by (simp add: abs_mult)
  have b4: "\<bar>3 * c * e\<bar> \<le> 15 * \<bar>c\<bar> + 3 * (\<bar>c\<bar> * \<bar>e\<bar>)"
    by (simp add: abs_mult)
  show ?thesis
  proof (cases "e \<le> 4")
    case True
    then have "real_of_int e \<le> real_of_int 4" by (simp only: of_int_le_iff)
    then have M: "max (1 / 2) (real_of_int e / 10) = 1 / 2" by simp
    from J show ?thesis
    proof
      assume "J = 1"
      then have "1000 * (of_int c / 50) * max (1 / 2) (of_int e / 10) * J = of_int (10 * c)"
        by (simp add: M)
      with b1 show ?thesis by blast
    next
      assume "J = 3 / 2"
      then have "1000 * (of_int c / 50) * max (1 / 2) (of_int e / 10) * J = of_int (15 * c)"
        by (simp add: M)
      with b2 show ?thesis by blast
    qed
  next
    case False
    then have "5 \<le> e" by simp
    then have "real_of_int 5 \<le> real_of_int e" by (simp only: of_int_le_iff)
    then have M: "max (1 / 2) (real_of_int e / 10) = real_of_int e / 10" by simp
    from J show ?thesis
    proof
      assume "J = 1"
      then have "1000 * (of_int c / 50) * max (1 / 2) (of_int e / 10) * J = of_int (2 * c * e)"
        by (simp add: M)
      with b3 show ?thesis by blast
    next
      assume "J = 3 / 2"
      then have "1000 * (of_int c / 50) * max (1 / 2) (of_int e / 10) * J = of_int (3 * c * e)"
        by (simp add: M)
      with b4 show ?thesis by blast
    qed
  qed
qed

text \<open>Truncating a double that lies within a quarter of an integer.\<close>

lemma f64_to_int_near:
  fixes t :: real and n :: int
  assumes t: "\<bar>t - of_int n\<bar> \<le> 1 / 4" and n: "\<bar>n\<bar> \<le> 2 ^ 62"
  shows "(0 < n \<longrightarrow> f64_to_int arch (Finite t) = n \<or> f64_to_int arch (Finite t) = n - 1)
       \<and> (n \<le> 0 \<longrightarrow> f64_to_int arch (Finite t) \<le> 0)"
proof -
  have fl: "\<lfloor>t\<rfloor> = n \<or> \<lfloor>t\<rfloor> = n - 1" using t by linarith
  have ce: "\<lceil>t\<rceil> = n \<or> \<lceil>t\<rceil> = n + 1" using t by linarith
  have p: "(2::int) ^ 62 + 1 < 2 ^ 63" by simp
  show ?thesis
  proof (intro conjI impI)
    assume "0 < n"
    then have "1 \<le> n" by simp
    then have "1 \<le> real_of_int n" by (simp only: of_int_1_le_iff)
    with t have "0 \<le> t" by linarith
    moreover have "- (2 ^ 63) \<le> \<lfloor>t\<rfloor> \<and> \<lfloor>t\<rfloor> < 2 ^ 63" using fl n p by linarith
    ultimately have "f64_to_int arch (Finite t) = \<lfloor>t\<rfloor>"
      by (simp add: f64_to_int_def toward_zero_def Let_def)
    with fl show "f64_to_int arch (Finite t) = n \<or> f64_to_int arch (Finite t) = n - 1" by simp
  next
    assume "n \<le> 0"
    then have "real_of_int n \<le> real_of_int 0" by (simp only: of_int_le_iff)
    with t have t0: "t \<le> 1 / 4" by linarith
    show "f64_to_int arch (Finite t) \<le> 0"
    proof (cases "0 \<le> t")
      case True
      with t0 have "\<lfloor>t\<rfloor> = 0" by linarith
      with True show ?thesis by (simp add: f64_to_int_def toward_zero_def Let_def)
    next
      case False
      then have "\<lceil>t\<rceil> \<le> 0" by linarith
      moreover have "- (2 ^ 63) \<le> \<lceil>t\<rceil> \<and> \<lceil>t\<rceil> < 2 ^ 63" using ce n p by linarith
      ultimately show ?thesis using False by (simp add: f64_to_int_def toward_zero_def Let_def)
    qed
  qed
qed

lemma estimateCurrentUsers_near_spec:
  assumes c: "\<bar>ComplexityScore a\<bar> \<le> 10 ^ 6" and e: "\<bar>ApiEndpoints a\<bar> \<le> 10 ^ 6"
  shows "of_int (estimateCurrentUsers arch a) =
           spec_estimated_users (ComplexityScore a) (ApiEndpoints a) (BackgroundJobs a)
       \<or> of_int (estimateCurrentUsers arch a) =
           spec_estimated_users (ComplexityScore a) (ApiEndpoints a) (BackgroundJobs a) - 1"
proof -
  define J :: real where "J = (if BackgroundJobs a \<noteq> [] then 3 / 2 else 1)"
  have J: "J = 1 \<or> J = 3 / 2" by (simp add: J_def)
  have Jm: "(if length (BackgroundJobs a) > 0 then Finite (3 / 2) else Finite 1) = Finite J"
    by (simp add: J_def)
  from users_product[OF c e J] obtain t where
    prod: "f64_mul
             (f64_mul (f64_mul (f64_of_int 1000)
                (f64_div (f64_of_int (ComplexityScore a)) (Finite 50)))
                (let m = f64_div (f64_of_int (ApiEndpoints a)) (Finite 10)
                 in if f64_less m (Finite (1 / 2)) then Finite (1 / 2) else m))
             (Finite J) = Finite t"
    and te: "\<bar>t - 1000 * (of_int (ComplexityScore a) / 50)
                 * max (1 / 2) (of_int (ApiEndpoints a) / 10) * J\<bar> \<le> 1 / 4"
    by blast
  from spec_product_int[OF J, of "ComplexityScore a" "ApiEndpoints a"] obtain n :: int where
    n: "1000 * (of_int (ComplexityScore a) / 50)
          * max (1 / 2) (of_int (ApiEndpoints a) / 10) * J = of_int n"
    and nb: "\<bar>n\<bar> \<le> 15 * \<bar>ComplexityScore a\<bar>
               + 3 * (\<bar>ComplexityScore a\<bar> * \<bar>ApiEndpoints a\<bar>)"
    by blast
  have "\<bar>ComplexityScore a\<bar> * \<bar>ApiEndpoints a\<bar> \<le> 10 ^ 6 * 10 ^ 6"
    using c e by (intro mult_mono) simp_all
  with nb c have "\<bar>n\<bar> \<le> 15 * 10 ^ 6 + 3 * (10 ^ 6 * 10 ^ 6)" by linarith
  also have "\<dots> \<le> (2::int) ^ 62" by simp
  finally have n62: "\<bar>n\<bar> \<le> 2 ^ 62" .
  have S: "spec_estimated_users (ComplexityScore a) (ApiEndpoints a) (BackgroundJobs a)
             = of_int (max 100 (min 1000000 n))"
  proof -
    have "spec_estimated_users (ComplexityScore a) (ApiEndpoints a) (BackgroundJobs a)
            = max 100 (min 1000000 (real_of_int n))"
      unfolding n[symmetric] by (simp add: spec_estimated_users_def J_def)
    then show ?thesis by simp
  qed
  define k where "k = f64_to_int arch (Finite t)"
  have "estimateCurrentUsers arch a =
          (if (if k < 100 then 100 else k) > 1000000 then 1000000
           else (if k < 100 then 100 else k))"
    unfolding estimateCurrentUsers_def Jm Let_def prod[unfolded Let_def] k_def ..
  then have U: "estimateCurrentUsers arch a = max 100 (min 1000000 k)" by simp
  from te have te': "\<bar>t - of_int n\<bar> \<le> 1 / 4" unfolding n .
  from f64_to_int_near[OF te' n62]
  have near: "(0 < n \<longrightarrow> k = n \<or> k = n - 1) \<and> (n \<le> 0 \<longrightarrow> k \<le> 0)"
    unfolding k_def .
  have "estimateCurrentUsers arch a = max 100 (min 1000000 n)
      \<or> estimateCurrentUsers arch a = max 100 (min 1000000 n) - 1"
    unfolding U using near by (cases "0 < n") auto
  then show ?thesis unfolding S
  proof
    assume "estimateCurrentUsers arch a = max 100 (min 1000000 n)"
    then show "real_of_int (estimateCurrentUsers arch a) = real_of_int (max 100 (min 1000000 n))
             \<or> real_of_int (estimateCurrentUsers arch a) = real_of_int (max 100 (min 1000000 n)) - 1"
      by simp
  next
    assume "estimateCurrentUsers arch a = max 100 (min 1000000 n) - 1"
    then have "real_of_int (estimateCurrentUsers arch a)
                 = real_of_int (max 100 (min 1000000 n) - 1)" by (simp only:)
    then show "real_of_int (estimateCurrentUsers arch a) = real_of_int (max 100 (min 1000000 n))
             \<or> real_of_int (estimateCurrentUsers arch a) = real_of_int (max 100 (min 1000000 n)) - 1"
      by simp
  qed
qed

section \<open>Properties of the normalizer\<close>

lemma if_upd_resources:
  "(if c1 then (r::ResourceMetrics)\<lparr>MemoryMB := v1\<rparr> else r) =
     r\<lparr>MemoryMB := (if c1 then v1 else MemoryMB r)\<rparr>"
  "(if c2 then r\<lparr>CPUCores := v2\<rparr> else r) =
     r\<lparr>CPUCores := (if c2 then v2 else CPUCores r)\<rparr>"
  "(if c3 then r\<lparr>DatabaseConns := v3\<rparr> else r) =
     r\<lparr>DatabaseConns := (if c3 then v3 else DatabaseConns r)\<rparr>"
  "(if c4 then r\<lparr>NetworkMbps := v4\<rparr> else r) =
     r\<lparr>NetworkMbps := (if c4 then v4 else NetworkMbps r)\<rparr>"
  "(if c5 then r\<lparr>StorageGB := v5\<rparr> else r) =
     r\<lparr>StorageGB := (if c5 then v5 else StorageGB r)\<rparr>"
  by simp_all

lemma validateResourceEstimates_eq:
  "validateResourceEstimates a =
     a\<lparr>ResourceUsage :=
        \<lparr>MemoryMB = clamp_int 128 16384 (MemoryMB (ResourceUsage a)),
         CPUCores = clamp_cpu (CPUCores (ResourceUsage a)),
         DatabaseConns = clamp_int 1 1000 (DatabaseConns (ResourceUsage a)),
         NetworkMbps = clamp_int 1 10000 (NetworkMbps (ResourceUsage a)),
         StorageGB = clamp_int 1 10000 (StorageGB (ResourceUsage a))\<rparr>\<rparr>"
  unfolding validateResourceEstimates_def Let_def if_upd_resources clamp_int_def clamp_cpu_def
  by (simp split del: if_split cong: if_cong)

lemma if_upd_analysis:
  "(if d1 then (a::CodeAnalysis)\<lparr>Language := w1\<rparr> else a) =
     a\<lparr>Language := (if d1 then w1 else Language a)\<rparr>"
  "(if d2 then a\<lparr>Framework := w2\<rparr> else a) =
     a\<lparr>Framework := (if d2 then w2 else Framework a)\<rparr>"
  "(if d3 then a\<lparr>ComplexityScore := w3\<rparr> else a) =
     a\<lparr>ComplexityScore := (if d3 then w3 else ComplexityScore a)\<rparr>"
  by simp_all

text \<open>The sequence of guarded assignments of \<open>postProcess\<close>, as one record update.\<close>

lemma postProcess_eq:
  "postProcess arch a =
     a\<lparr>EstimatedUsers := estimateCurrentUsers arch a,
       Language := default_name (Language a),
       Framework := default_name (Framework a),
       ComplexityScore := default_complexity (ComplexityScore a),
       ResourceUsage :=
        \<lparr>MemoryMB = clamp_int 128 16384 (MemoryMB (ResourceUsage a)),
         CPUCores = clamp_cpu (CPUCores (ResourceUsage a)),
         DatabaseConns = clamp_int 1 1000 (DatabaseConns (ResourceUsage a)),
         NetworkMbps = clamp_int 1 10000 (NetworkMbps (ResourceUsage a)),
         StorageGB = clamp_int 1 10000 (StorageGB (ResourceUsage a))\<rparr>\<rparr>"
  unfolding postProcess_def Let_def if_upd_analysis validateResourceEstimates_eq
    default_name_def default_complexity_def
  by (simp split del: if_split cong: if_cong)

lemma default_name_nonempty: "default_name s \<noteq> []"
  by (simp add: default_name_def)

lemma default_name_idem: "default_name (default_name s) = default_name s"
  by (simp add: default_name_def)

lemma default_complexity_idem: "default_complexity (default_complexity c) = default_complexity c"
  by (simp add: default_complexity_def)

lemma clamp_int_max_min: "lo \<le> hi \<Longrightarrow> clamp_int lo hi x = max lo (min hi x)"
  by (simp add: clamp_int_def Let_def max_def min_def)

lemma clamp_int_idem: "lo \<le> hi \<Longrightarrow> clamp_int lo hi (clamp_int lo hi x) = clamp_int lo hi x"
  by (simp add: clamp_int_def Let_def)

lemma clamp_cpu_cases:
  "clamp_cpu (Finite c) = Finite (max (3602879701896397 / 36028797018963968) (min 32 c))"
  "clamp_cpu PosInf = Finite 32"
  "clamp_cpu NegInf = Finite (3602879701896397 / 36028797018963968)"
  "clamp_cpu NaN = NaN"
  by (simp_all add: clamp_cpu_def Let_def f64_tenth f64_greater_def max_def min_def)

lemma clamp_cpu_idem: "clamp_cpu (clamp_cpu x) = clamp_cpu x"
  by (cases x) (simp_all add: clamp_cpu_def Let_def f64_tenth f64_greater_def)

lemma clamp_cpu_range:
  assumes "x \<noteq> NaN"
  shows "\<exists>c. clamp_cpu x = Finite c \<and> 1 / 10 \<le> c \<and> c \<le> 32"
proof (cases x)
  case (Finite a)
  have "clamp_cpu x = Finite (max (3602879701896397 / 36028797018963968) (min 32 a))"
    using Finite by (simp add: clamp_cpu_cases)
  moreover have "(1::real) / 10 \<le> max (3602879701896397 / 36028797018963968) (min 32 a)"
    by simp
  moreover have "max (3602879701896397 / 36028797018963968) (min 32 a) \<le> (32::real)"
    by simp
  ultimately show ?thesis by blast
next
  case PosInf
  have "clamp_cpu x = Finite 32" using PosInf by (simp add: clamp_cpu_cases)
  moreover have "(1::real) / 10 \<le> 32" by simp
  ultimately show ?thesis by blast
next
  case NegInf
  have "clamp_cpu x = Finite (3602879701896397 / 36028797018963968)"
    using NegInf by (simp add: clamp_cpu_cases)
  moreover have "(1::real) / 10 \<le> 3602879701896397 / 36028797018963968" by simp
  moreover have "(3602879701896397::real) / 36028797018963968 \<le> 32" by simp
  ultimately show ?thesis by blast
next
  case NaN
  with assms show ?thesis by simp
qed

lemma clamp_cpu_in_range: "cpu_in_range (clamp_cpu x) \<longleftrightarrow> x \<noteq> NaN"
proof (cases "x = NaN")
  case True
  then show ?thesis by (simp add: clamp_cpu_cases cpu_in_range_def)
next
  case False
  from clamp_cpu_range[OF False] obtain c where
    "clamp_cpu x = Finite c" "1 / 10 \<le> c" "c \<le> 32" by blast
  with False show ?thesis by (simp add: cpu_in_range_def)
qed

lemma clamp_cpu_case:
  "clamp_cpu x =
     (case x of
        Finite c \<Rightarrow> Finite (max (3602879701896397 / 36028797018963968) (min 32 c))
      | PosInf \<Rightarrow> Finite 32
      | NegInf \<Rightarrow> Finite (3602879701896397 / 36028797018963968)
      | NaN \<Rightarrow> NaN)"
  by (cases x) (simp_all add: clamp_cpu_cases)

lemma estimateCurrentUsers_bounds:
  "100 \<le> estimateCurrentUsers arch a \<and> estimateCurrentUsers arch a \<le> 1000000"
  by (simp add: estimateCurrentUsers_def Let_def)

lemma estimateCurrentUsers_cong:
  "ComplexityScore a = ComplexityScore b \<Longrightarrow> ApiEndpoints a = ApiEndpoints b \<Longrightarrow>
   BackgroundJobs a = BackgroundJobs b \<Longrightarrow>
   estimateCurrentUsers arch a = estimateCurrentUsers arch b"
  by (simp add: estimateCurrentUsers_def)

text \<open>
  The bounds of the resource estimates, of the names and of the estimated users. Each
  holds for every input report and every platform, except the bound on the CPU cores,
  which holds exactly when the CPU-cores value of the input is not NaN: every other
  value, the infinities included, is clamped into the range. The lower CPU bound the
  code compares with is the double nearest to 0.1, which is slightly above one tenth.
\<close>

lemma postProcess_clamps:
  "MemoryMB (ResourceUsage (postProcess arch r)) = max 128 (min 16384 (MemoryMB (ResourceUsage r)))
   \<and> 128 \<le> MemoryMB (ResourceUsage (postProcess arch r))
   \<and> MemoryMB (ResourceUsage (postProcess arch r)) \<le> 16384
   \<and> (cpu_in_range (CPUCores (ResourceUsage (postProcess arch r)))
        \<longleftrightarrow> CPUCores (ResourceUsage r) \<noteq> NaN)
   \<and> CPUCores (ResourceUsage (postProcess arch r)) =
       (case CPUCores (ResourceUsage r) of
          Finite c \<Rightarrow> Finite (max (3602879701896397 / 36028797018963968) (min 32 c))
        | PosInf \<Rightarrow> Finite 32
        | NegInf \<Rightarrow> Finite (3602879701896397 / 36028797018963968)
        | NaN \<Rightarrow> NaN)
   \<and> DatabaseConns (ResourceUsage (postProcess arch r)) =
       max 1 (min 1000 (DatabaseConns (ResourceUsage r)))
   \<and> 1 \<le> DatabaseConns (ResourceUsage (postProcess arch r))
   \<and> DatabaseConns (ResourceUsage (postProcess arch r)) \<le> 1000
   \<and> NetworkMbps (ResourceUsage (postProcess arch r)) =
       max 1 (min 10000 (NetworkMbps (ResourceUsage r)))
   \<and> 1 \<le> NetworkMbps (ResourceUsage (postProcess arch r))
   \<and> NetworkMbps (ResourceUsage (postProcess arch r)) \<le> 10000
   \<and> StorageGB (ResourceUsage (postProcess arch r)) =
       max 1 (min 10000 (StorageGB (ResourceUsage r)))
   \<and> 1 \<le> StorageGB (ResourceUsage (postProcess arch r))
   \<and> StorageGB (ResourceUsage (postProcess arch r)) \<le> 10000
   \<and> Language (postProcess arch r) \<noteq> []
   \<and> Framework (postProcess arch r) \<noteq> []
   \<and> 100 \<le> EstimatedUsers (postProcess arch r)
   \<and> EstimatedUsers (postProcess arch r) \<le> 1000000"
  using estimateCurrentUsers_bounds[of arch r]
  by (simp add: postProcess_eq clamp_int_max_min clamp_cpu_case[symmetric]
                clamp_cpu_in_range default_name_nonempty)


lemma postProcess_twice:
  "postProcess arch (postProcess arch r) =
     (postProcess arch r)\<lparr>EstimatedUsers := estimateCurrentUsers arch (postProcess arch r)\<rparr>"
  by (simp add: postProcess_eq[of arch "postProcess arch r"])
     (simp add: postProcess_eq[of arch r] clamp_int_idem clamp_cpu_idem default_name_idem
                default_complexity_idem)

lemma users_zero: "estimateCurrentUsers arch zeroReport = 100"
  by (simp add: estimateCurrentUsers_def zeroReport_def newCodeAnalysis_def f64_eval
                f64_to_int_def toward_zero_def)

lemma postProcess_zero_fields:
  "ComplexityScore (postProcess arch zeroReport) = 50"
  "ApiEndpoints (postProcess arch zeroReport) = 0"
  "BackgroundJobs (postProcess arch zeroReport) = []"
  "EstimatedUsers (postProcess arch zeroReport) = 100"
  by (simp_all add: postProcess_eq users_zero default_complexity_def)
     (simp_all add: zeroReport_def newCodeAnalysis_def)

lemma users_zero_normalized: "estimateCurrentUsers arch (postProcess arch zeroReport) = 500"
  by (simp add: estimateCurrentUsers_def postProcess_zero_fields f64_eval
                f64_to_int_def toward_zero_def)

text \<open>
  Claim C2, as amended. For every report whose complexity score is not zero,
  \<open>postProcess (postProcess r) = postProcess r\<close>. For every report, a second
  application changes at most the estimated users: the defaults and the clamps are
  idempotent, and the estimate is recomputed from the report it is given.
\<close>

theorem postProcess_idempotent:
  "(ComplexityScore r \<noteq> 0 \<longrightarrow> postProcess arch (postProcess arch r) = postProcess arch r)
   \<and> postProcess arch (postProcess arch r) =
       (postProcess arch r)\<lparr>EstimatedUsers := estimateCurrentUsers arch (postProcess arch r)\<rparr>"
proof -
  have "estimateCurrentUsers arch (postProcess arch r) = estimateCurrentUsers arch r"
    if "ComplexityScore r \<noteq> 0"
    by (rule estimateCurrentUsers_cong)
       (simp_all add: postProcess_eq that default_complexity_def)
  then have "ComplexityScore r \<noteq> 0 \<longrightarrow>
               postProcess arch (postProcess arch r) = postProcess arch r"
    unfolding postProcess_twice by (simp add: postProcess_eq[of arch r])
  with postProcess_twice show ?thesis by blast
qed

theorem postProcess_idempotent_witness:
  "ComplexityScore sampleReport \<noteq> 0
   \<and> postProcess amd64 (postProcess amd64 sampleReport) = postProcess amd64 sampleReport"
proof -
  have h: "ComplexityScore sampleReport \<noteq> 0" by (simp add: sampleReport_def)
  with postProcess_idempotent[of sampleReport amd64] show ?thesis by blast
qed

text \<open>
  Claim C2 as stated fails on the zero report: the first application computes the
  estimate from complexity 0 (100 users) and then sets the complexity to 50; the second
  computes it from 50 (500 users).
\<close>

theorem postProcess_not_idempotent_counterexample:
  "postProcess amd64 (postProcess amd64 zeroReport) \<noteq> postProcess amd64 zeroReport"
proof
  assume "postProcess amd64 (postProcess amd64 zeroReport) = postProcess amd64 zeroReport"
  then have "EstimatedUsers (postProcess amd64 (postProcess amd64 zeroReport)) =
             EstimatedUsers (postProcess amd64 zeroReport)"
    by simp
  then show False
    by (simp add: postProcess_eq[of amd64 "postProcess amd64 zeroReport"] users_zero_normalized
                  postProcess_zero_fields)
qed

text \<open>The code's estimate is the clamp of the converted \<open>float64\<close> product.\<close>

lemma estimateCurrentUsers_product:
  "estimateCurrentUsers arch a =
     max 100 (min 1000000 (f64_to_int arch
       (spec_product_f64 (ComplexityScore a) (ApiEndpoints a) (BackgroundJobs a))))"
  by (simp add: estimateCurrentUsers_def Let_def f64_thousand spec_product_f64_def f64_max_def
                max_def min_def)

text \<open>
  The truncation matters: with complexity 3 and 41 endpoints the exact product is 246,
  the \<open>float64\<close> product lies just below it, and the code returns 245.
\<close>

lemma estimateCurrentUsers_truncation:
  "estimateCurrentUsers arch (zeroReport\<lparr>ApiEndpoints := 41, ComplexityScore := 3\<rparr>) = 245
   \<and> spec_estimated_users 3 41 [] = 246"
  by (simp add: estimateCurrentUsers_def zeroReport_def newCodeAnalysis_def f64_eval
                f64_to_int_def toward_zero_def spec_estimated_users_def)

text \<open>
  Claim C3, as amended. Let \<open>c\<close> be the complexity score of the input report (read
  before the zero default is applied) and \<open>e\<close> and \<open>jobs\<close> the endpoint count and the
  background jobs of the returned report, which are those of the input. The code
  evaluates the product \<open>1000 * (c/50) * max(0.5, e/10) * (1.5 if jobs non-empty else
  1.0)\<close> in \<open>float64\<close> arithmetic from left to right; whenever that product truncated
  toward zero is an \<open>int64\<close>, the estimated users of the returned report are the
  truncated product clamped to [100, 1000000]. When \<open>c\<close> and \<open>e\<close> are at most a million
  in absolute value, this is the value of the exact formula of the specification or one
  less. Beyond the \<open>int64\<close> range the conversion, and so the estimate, depends on the
  platform. When the input complexity is not zero, it is also the complexity of the
  returned report.
\<close>

theorem postProcess_estimated_users:
  "(\<forall>t. spec_product_f64 (ComplexityScore r) (ApiEndpoints (postProcess arch r))
           (BackgroundJobs (postProcess arch r)) = Finite t
        \<and> - (2 ^ 63) \<le> toward_zero t \<and> toward_zero t < 2 ^ 63 \<longrightarrow>
        EstimatedUsers (postProcess arch r) = max 100 (min 1000000 (toward_zero t)))
   \<and> (\<bar>ComplexityScore r\<bar> \<le> 10 ^ 6 \<and> \<bar>ApiEndpoints (postProcess arch r)\<bar> \<le> 10 ^ 6 \<longrightarrow>
        of_int (EstimatedUsers (postProcess arch r)) =
          spec_estimated_users (ComplexityScore r) (ApiEndpoints (postProcess arch r))
            (BackgroundJobs (postProcess arch r))
        \<or> of_int (EstimatedUsers (postProcess arch r)) =
          spec_estimated_users (ComplexityScore r) (ApiEndpoints (postProcess arch r))
            (BackgroundJobs (postProcess arch r)) - 1)
   \<and> ApiEndpoints (postProcess arch r) = ApiEndpoints r
   \<and> BackgroundJobs (postProcess arch r) = BackgroundJobs r
   \<and> (ComplexityScore r \<noteq> 0 \<longrightarrow> ComplexityScore (postProcess arch r) = ComplexityScore r)"
proof -
  have f: "ApiEndpoints (postProcess arch r) = ApiEndpoints r"
    "BackgroundJobs (postProcess arch r) = BackgroundJobs r"
    "EstimatedUsers (postProcess arch r) = estimateCurrentUsers arch r"
    by (simp_all add: postProcess_eq)
  have 1: "estimateCurrentUsers arch r = max 100 (min 1000000 (toward_zero t))"
    if "spec_product_f64 (ComplexityScore r) (ApiEndpoints r) (BackgroundJobs r) = Finite t"
      and "- (2 ^ 63) \<le> toward_zero t" and "toward_zero t < 2 ^ 63" for t
    unfolding estimateCurrentUsers_product that(1) using that(2,3)
    by (simp add: f64_to_int_def Let_def)
  have 2: "of_int (estimateCurrentUsers arch r) =
             spec_estimated_users (ComplexityScore r) (ApiEndpoints r) (BackgroundJobs r)
         \<or> of_int (estimateCurrentUsers arch r) =
             spec_estimated_users (ComplexityScore r) (ApiEndpoints r) (BackgroundJobs r) - 1"
    if "\<bar>ComplexityScore r\<bar> \<le> 10 ^ 6" and "\<bar>ApiEndpoints r\<bar> \<le> 10 ^ 6"
    using that by (rule estimateCurrentUsers_near_spec)
  have 3: "ComplexityScore r \<noteq> 0 \<longrightarrow> ComplexityScore (postProcess arch r) = ComplexityScore r"
    by (simp add: postProcess_eq default_complexity_def)
  from 1 2 3 show ?thesis unfolding f by blast
qed

theorem postProcess_estimated_users_witness:
  "spec_product_f64 (ComplexityScore sampleReport) (ApiEndpoints (postProcess amd64 sampleReport))
     (BackgroundJobs (postProcess amd64 sampleReport)) = Finite 3000
   \<and> - (2 ^ 63) \<le> toward_zero 3000 \<and> toward_zero 3000 < 2 ^ 63
   \<and> \<bar>ComplexityScore sampleReport\<bar> \<le> 10 ^ 6
   \<and> \<bar>ApiEndpoints (postProcess amd64 sampleReport)\<bar> \<le> 10 ^ 6
   \<and> ComplexityScore sampleReport \<noteq> 0
   \<and> spec_estimated_users (ComplexityScore sampleReport)
        (ApiEndpoints (postProcess amd64 sampleReport))
        (BackgroundJobs (postProcess amd64 sampleReport)) = 3000
   \<and> ComplexityScore (postProcess amd64 sampleReport) = 50
   \<and> EstimatedUsers (postProcess amd64 sampleReport) = 3000"
proof -
  have h: "ComplexityScore sampleReport = 50" "ApiEndpoints sampleReport = 20"
    "BackgroundJobs sampleReport = [''emailer'']"
    by (simp_all add: sampleReport_def)
  note t = postProcess_estimated_users[of sampleReport amd64]
  have a: "ApiEndpoints (postProcess amd64 sampleReport) = 20"
    "BackgroundJobs (postProcess amd64 sampleReport) = [''emailer'']"
    "ComplexityScore (postProcess amd64 sampleReport) = 50"
    using t h by simp_all
  have p: "spec_product_f64 50 20 [''emailer''] = Finite 3000"
    by (simp add: spec_product_f64_def f64_max_def f64_eval)
  have z: "toward_zero 3000 = 3000" by (simp add: toward_zero_def)
  have s: "spec_estimated_users 50 20 [''emailer''] = 3000"
    by (simp add: spec_estimated_users_def)
  have e: "EstimatedUsers (postProcess amd64 sampleReport) = 3000"
    using t p unfolding a h by (simp add: z)
  show ?thesis unfolding a h using p z s e by simp
qed

text \<open>
  Claim C3 as stated fails on the zero report: the returned report has complexity 50, no
  endpoints and no jobs, for which the formula gives 500, and its estimated users are
  100. It also fails on a report with complexity 3 and 41 endpoints, for which the
  formula gives 246 and the estimated users are 245.
\<close>

theorem postProcess_estimated_users_counterexample:
  "EstimatedUsers (postProcess amd64 zeroReport) = 100
   \<and> ComplexityScore (postProcess amd64 zeroReport) = 50
   \<and> ApiEndpoints (postProcess amd64 zeroReport) = 0
   \<and> BackgroundJobs (postProcess amd64 zeroReport) = []
   \<and> spec_estimated_users (ComplexityScore (postProcess amd64 zeroReport))
        (ApiEndpoints (postProcess amd64 zeroReport))
        (BackgroundJobs (postProcess amd64 zeroReport)) = 500
   \<and> of_int (EstimatedUsers (postProcess amd64 zeroReport)) \<noteq>
       spec_estimated_users (ComplexityScore (postProcess amd64 zeroReport))
         (ApiEndpoints (postProcess amd64 zeroReport))
         (BackgroundJobs (postProcess amd64 zeroReport))
   \<and> EstimatedUsers (postProcess amd64 truncReport) = 245
   \<and> spec_estimated_users (ComplexityScore (postProcess amd64 truncReport))
        (ApiEndpoints (postProcess amd64 truncReport))
        (BackgroundJobs (postProcess amd64 truncReport)) = 246"
proof -
  have t: "EstimatedUsers (postProcess amd64 truncReport) = 245"
    "ComplexityScore (postProcess amd64 truncReport) = 3"
    "ApiEndpoints (postProcess amd64 truncReport) = 41"
    "BackgroundJobs (postProcess amd64 truncReport) = []"
    using estimateCurrentUsers_truncation[of amd64]
    by (simp_all add: postProcess_eq truncReport_def default_complexity_def)
       (simp_all add: zeroReport_def newCodeAnalysis_def)
  show ?thesis
    unfolding t using estimateCurrentUsers_truncation[of amd64]
    by (simp add: postProcess_zero_fields spec_estimated_users_def)
qed

text \<open>
  Beyond the \<open>int64\<close> range the estimate depends on the platform: with complexity 100,
  \<open>10^17\<close> endpoints and a background job the product is \<open>3 * 10^19\<close>, and the estimate
  is 100 on amd64 and 1000000 on arm64.
\<close>

lemma estimateCurrentUsers_platform:
  "estimateCurrentUsers amd64
     (zeroReport\<lparr>ApiEndpoints := 10 ^ 17, BackgroundJobs := [''emailer''],
                  ComplexityScore := 100\<rparr>) = 100
   \<and> estimateCurrentUsers arm64
     (zeroReport\<lparr>ApiEndpoints := 10 ^ 17, BackgroundJobs := [''emailer''],
                  ComplexityScore := 100\<rparr>) = 1000000"
  by (simp add: estimateCurrentUsers_def zeroReport_def newCodeAnalysis_def f64_eval
                f64_to_int_def toward_zero_def amd64_def arm64_def)

text \<open>
  Claim C4, as amended. For every input report whose complexity score lies in [0, 100],
  the complexity score of the returned report lies in [1, 100]: a zero score is reset to
  50 and any other score is kept. \<open>postProcess\<close> does not clamp the score.
\<close>

theorem postProcess_complexity:
  assumes "0 \<le> ComplexityScore r" and "ComplexityScore r \<le> 100"
  shows "ComplexityScore (postProcess arch r) =
           (if ComplexityScore r = 0 then 50 else ComplexityScore r)
       \<and> 1 \<le> ComplexityScore (postProcess arch r) \<and> ComplexityScore (postProcess arch r) \<le> 100"
  using assms by (simp add: postProcess_eq default_complexity_def)

theorem postProcess_complexity_witness:
  "0 \<le> ComplexityScore zeroReport \<and> ComplexityScore zeroReport \<le> 100
   \<and> ComplexityScore (postProcess amd64 zeroReport) = 50"
proof -
  have h: "0 \<le> ComplexityScore zeroReport" "ComplexityScore zeroReport \<le> 100"
    "ComplexityScore zeroReport = 0"
    by (simp_all add: zeroReport_def newCodeAnalysis_def)
  show ?thesis using postProcess_complexity[OF h(1) h(2), of amd64] h by simp
qed

text \<open>Claim C4 as stated fails: a complexity score of 500 is returned unchanged.\<close>

theorem postProcess_complexity_counterexample:
  "ComplexityScore (postProcess amd64 (zeroReport\<lparr>ComplexityScore := 500\<rparr>)) = 500
   \<and> \<not> (1 \<le> ComplexityScore (postProcess amd64 (zeroReport\<lparr>ComplexityScore := 500\<rparr>))
         \<and> ComplexityScore (postProcess amd64 (zeroReport\<lparr>ComplexityScore := 500\<rparr>)) \<le> 100)"
  by (simp add: postProcess_eq default_complexity_def)

text \<open>
  Claim C10. \<open>postProcess\<close> changes at most the estimated users, the language, the
  framework, the complexity score and the resource estimates: every other field of the
  returned report is the field of the input report.
\<close>

theorem postProcess_frame:
  "ProjectID (postProcess arch r) = ProjectID r
   \<and> Timestamp (postProcess arch r) = Timestamp r
   \<and> Directory (postProcess arch r) = Directory r
   \<and> Dependencies (postProcess arch r) = Dependencies r
   \<and> DatabaseCalls (postProcess arch r) = DatabaseCalls r
   \<and> ApiEndpoints (postProcess arch r) = ApiEndpoints r
   \<and> StatelessFuncs (postProcess arch r) = StatelessFuncs r
   \<and> BackgroundJobs (postProcess arch r) = BackgroundJobs r
   \<and> CacheUsage (postProcess arch r) = CacheUsage r
   \<and> FileUploads (postProcess arch r) = FileUploads r
   \<and> ScalingBottlenecks (postProcess arch r) = ScalingBottlenecks r
   \<and> SecurityIssues (postProcess arch r) = SecurityIssues r
   \<and> Performance (postProcess arch r) = Performance r"
  by (simp add: postProcess_eq)

section \<open>Properties of the extractors and of the passes\<close>

lemma byte_char_eval:
  "byte_char n = Char (odd n) (odd (n div 2)) (odd (n div 4)) (odd (n div 8)) (odd (n div 16))
                      (odd (n div 32)) (odd (n div 64)) (odd (n div 128))"
  by (simp add: byte_char_def char_of_def bit_iff_odd)

lemmas text_eval = byte_def first_size_def accept_lo_def accept_hi_def is_cont_def RuneError_def
  newline_def is_digit_def Let_def EncodeRune_def byte_char_eval unicode_ToLower_def
  unicode_ToTitle_def unicode_IsSpace_def Map_runes_def ToLower_def TrimSpace_def
  isSeparator_def Title_def text_of_def fold_orbit_def
lemmas pat_eval = number_before_def pattern_database_def pattern_complexity_after_def pattern_complexity_before_def
  pattern_memory_def pattern_cpu_def pattern_connections_def pattern_network_def pattern_storage_def pattern_endpoints_def
lemmas ext_eval = extractNumber_def extractFloat_def FindStringSubmatch_def group_text_def Atoi_def ParseFloat_def
  digits_val_def digit_val_def

lemma byte_char_byte: "byte_char (byte c) = c"
  by (simp add: byte_def byte_char_def)

lemma byte_byte_char: "n < 256 \<Longrightarrow> byte (byte_char n) = n"
  by (simp add: byte_def byte_char_def)

text \<open>
  A rune below \<open>0x80\<close> is only read from a single byte, its own; every rune has a width
  of one byte at least, and the bytes of the runes of a string are the string.
\<close>

lemma mod_part: "k < n \<Longrightarrow> (q * n + k) mod n = (k::nat)"
  by simp

lemma mod64: "128 \<le> (b::nat) \<Longrightarrow> b < 192 \<Longrightarrow> b mod 64 = b - 128"
  using mod_part[of "b - 128" 64 2] by simp

lemma mod32: "192 \<le> (a::nat) \<Longrightarrow> a < 224 \<Longrightarrow> a mod 32 = a - 192"
  using mod_part[of "a - 192" 32 6] by simp

lemma mod16: "224 \<le> (a::nat) \<Longrightarrow> a < 240 \<Longrightarrow> a mod 16 = a - 224"
  using mod_part[of "a - 224" 16 14] by simp

lemma mod8: "240 \<le> (a::nat) \<Longrightarrow> a < 248 \<Longrightarrow> a mod 8 = a - 240"
  using mod_part[of "a - 240" 8 30] by simp

lemma two_bytes: "194 \<le> a \<Longrightarrow> a < 224 \<Longrightarrow> 128 \<le> (a mod 32) * 64 + (b::nat) mod 64"
  by (simp add: mod32)

lemma three_bytes:
  assumes "224 \<le> a" "a < 240" "accept_lo a \<le> b" "b \<le> accept_hi a"
  shows "128 \<le> (a mod 16) * 4096 + (b mod 64) * 64 + (c::nat) mod 64"
proof (cases "a = 224")
  case True
  with assms have "160 \<le> b" "b \<le> 191" by (simp_all add: accept_lo_def accept_hi_def)
  then have "32 \<le> b mod 64" by (simp add: mod64)
  then have "2048 \<le> (b mod 64) * 64" by simp
  then show ?thesis by linarith
next
  case False
  with assms have "1 \<le> a mod 16" by (simp add: mod16)
  then have "4096 \<le> (a mod 16) * 4096" by simp
  then show ?thesis by linarith
qed

lemma four_bytes:
  assumes "240 \<le> a" "a < 245" "accept_lo a \<le> b" "b \<le> accept_hi a"
  shows "128 \<le> (a mod 8) * 262144 + (b mod 64) * 4096 + (c mod 64) * 64 + (d::nat) mod 64"
proof (cases "a = 240")
  case True
  with assms have "144 \<le> b" "b \<le> 191" by (simp_all add: accept_lo_def accept_hi_def)
  then have "16 \<le> b mod 64" by (simp add: mod64)
  then have "65536 \<le> (b mod 64) * 4096" by simp
  then show ?thesis by linarith
next
  case False
  with assms have "1 \<le> a mod 8" by (simp add: mod8)
  then have "262144 \<le> (a mod 8) * 262144" by simp
  then show ?thesis by linarith
qed

lemma DecodeRune_beyond:
  assumes "first_size (byte c) \<noteq> 1"
  shows "0x80 \<le> fst (DecodeRune (c # cs))"
proof -
  define a where "a = byte c"
  define sz where "sz = first_size a"
  have e: "(128::nat) \<le> RuneError" by (simp add: RuneError_def)
  consider "sz = 0" | "sz = 2" | "sz = 3" | "sz = 4"
    using assms unfolding sz_def a_def first_size_def by (auto split: if_splits)
  then show ?thesis
  proof cases
    case 1
    then show ?thesis using e by (simp add: Let_def a_def[symmetric] sz_def[symmetric])
  next
    case 2
    then have r: "194 \<le> a" "a < 224" unfolding sz_def first_size_def by (auto split: if_splits)
    show ?thesis
      using e two_bytes[OF r] 2
      by (simp add: Let_def a_def[symmetric] sz_def[symmetric])
  next
    case 3
    then have r: "224 \<le> a" "a < 240" unfolding sz_def first_size_def by (auto split: if_splits)
    show ?thesis
      using e three_bytes[OF r] 3
      by (simp add: Let_def a_def[symmetric] sz_def[symmetric] not_less)
  next
    case 4
    then have r: "240 \<le> a" "a < 245" unfolding sz_def first_size_def by (auto split: if_splits)
    show ?thesis
      using e four_bytes[OF r] 4
      by (simp add: Let_def a_def[symmetric] sz_def[symmetric] not_less)
  qed
qed

lemma DecodeRune_ascii:
  assumes "fst (DecodeRune (c # cs)) < 0x80"
  shows "DecodeRune (c # cs) = (byte c, 1)"
proof -
  from assms DecodeRune_beyond[of c cs] have "first_size (byte c) = 1" by fastforce
  then show ?thesis by (simp add: Let_def)
qed

lemma DecodeRune_width: "1 \<le> snd (DecodeRune (c # cs))"
  by (simp add: Let_def)

lemma runes_ascii: "list_all ascii_token (runes s)"
proof (induction s rule: runes.induct)
  case 1
  then show ?case by simp
next
  case (2 c cs)
  have "ascii_token (fst (DecodeRune (c # cs)), take (snd (DecodeRune (c # cs))) (c # cs))"
  proof (cases "fst (DecodeRune (c # cs)) < 0x80")
    case True
    from DecodeRune_ascii[OF True] show ?thesis by (simp add: ascii_token_def byte_char_byte)
  next
    case False
    then show ?thesis by (simp add: ascii_token_def)
  qed
  with 2 show ?case by (simp add: Let_def del: DecodeRune.simps)
qed

lemma text_of_runes: "text_of (runes s) = s"
proof (induction s rule: runes.induct)
  case 1
  then show ?case by (simp add: text_of_def)
next
  case (2 c cs)
  define n where "n = snd (DecodeRune (c # cs))"
  have n: "1 \<le> n" unfolding n_def by (rule DecodeRune_width)
  then have d: "drop (n - 1) cs = drop n (c # cs)" by (cases n) simp_all
  have ih: "text_of (runes (drop (n - 1) cs)) = drop (n - 1) cs"
    unfolding n_def by (rule 2) simp
  have "text_of (runes (c # cs)) = take n (c # cs) @ text_of (runes (drop (n - 1) cs))"
    by (simp add: text_of_def Let_def n_def[symmetric] del: DecodeRune.simps)
  also have "\<dots> = take n (c # cs) @ drop (n - 1) cs" by (simp only: ih)
  also have "\<dots> = take n (c # cs) @ drop n (c # cs)" by (simp only: d)
  finally show ?case by simp
qed

lemma div_part: "k < n \<Longrightarrow> (q * n + k) div n = (q::nat)"
  by simp

lemma split2:
  fixes p q :: nat
  assumes "q < 64"
  shows "(p * 64 + q) mod 64 = q" "(p * 64 + q) div 64 = p"
  using assms by simp_all

lemma split3:
  fixes p q t :: nat
  assumes "q < 64" "t < 64"
  shows "(p * 4096 + q * 64 + t) mod 64 = t"
    and "((p * 4096 + q * 64 + t) div 64) mod 64 = q"
    and "(p * 4096 + q * 64 + t) div 4096 = p"
proof -
  have e: "p * 4096 + q * 64 + t = (p * 64 + q) * 64 + t" by simp
  show "(p * 4096 + q * 64 + t) mod 64 = t" unfolding e using assms(2) by (rule mod_part)
  have "(p * 4096 + q * 64 + t) div 64 = p * 64 + q" unfolding e using assms(2) by (rule div_part)
  moreover have "(p * 64 + q) mod 64 = q" using assms(1) by (rule mod_part)
  ultimately show "((p * 4096 + q * 64 + t) div 64) mod 64 = q" by (simp only:)
  have "q * 64 + t < 4096" using assms by simp
  then have "(p * 4096 + (q * 64 + t)) div 4096 = p" by (rule div_part)
  then show "(p * 4096 + q * 64 + t) div 4096 = p" by (simp add: add.assoc)
qed

lemma split4:
  fixes p q t v :: nat
  assumes "q < 64" "t < 64" "v < 64"
  shows "(p * 262144 + q * 4096 + t * 64 + v) mod 64 = v"
    and "((p * 262144 + q * 4096 + t * 64 + v) div 64) mod 64 = t"
    and "((p * 262144 + q * 4096 + t * 64 + v) div 4096) mod 64 = q"
    and "(p * 262144 + q * 4096 + t * 64 + v) div 262144 = p"
proof -
  let ?r = "p * 262144 + q * 4096 + t * 64 + v"
  have e: "?r = ((p * 64 + q) * 64 + t) * 64 + v" by simp
  show "?r mod 64 = v" unfolding e using assms(3) by (rule mod_part)
  have "?r div 64 = (p * 64 + q) * 64 + t" unfolding e using assms(3) by (rule div_part)
  moreover have "((p * 64 + q) * 64 + t) mod 64 = t" using assms(2) by (rule mod_part)
  ultimately show "(?r div 64) mod 64 = t" by (simp only:)
  have "t * 64 + v < 4096" using assms by simp
  then have "((p * 64 + q) * 4096 + (t * 64 + v)) div 4096 = p * 64 + q" by (rule div_part)
  moreover have "?r = (p * 64 + q) * 4096 + (t * 64 + v)" by simp
  ultimately have "?r div 4096 = p * 64 + q" by simp
  moreover have "(p * 64 + q) mod 64 = q" using assms(1) by (rule mod_part)
  ultimately show "(?r div 4096) mod 64 = q" by (simp only:)
  have "q * 4096 + t * 64 + v < 262144" using assms by simp
  then have "(p * 262144 + (q * 4096 + t * 64 + v)) div 262144 = p" by (rule div_part)
  then show "?r div 262144 = p" by (simp add: add.assoc)
qed

lemma DecodeRune_1: "first_size (byte c) = 1 \<Longrightarrow> DecodeRune (c # cs) = (byte c, 1)"
  by (simp add: Let_def)

lemma DecodeRune_0: "first_size (byte c) = 0 \<Longrightarrow> DecodeRune (c # cs) = (RuneError, 1)"
  by (simp add: Let_def)

lemma DecodeRune_2:
  "first_size (byte c) = 2 \<Longrightarrow>
   DecodeRune (c # cs) =
     (if 1 \<le> length cs \<and> accept_lo (byte c) \<le> byte (cs ! 0)
         \<and> byte (cs ! 0) \<le> accept_hi (byte c)
      then ((byte c mod 32) * 64 + byte (cs ! 0) mod 64, 2)
      else (RuneError, 1))"
  by (auto simp: Let_def not_less Suc_le_eq not_le less_Suc_eq_le)

lemma DecodeRune_3:
  "first_size (byte c) = 3 \<Longrightarrow>
   DecodeRune (c # cs) =
     (if 2 \<le> length cs \<and> accept_lo (byte c) \<le> byte (cs ! 0)
         \<and> byte (cs ! 0) \<le> accept_hi (byte c) \<and> is_cont (byte (cs ! 1))
      then ((byte c mod 16) * 4096 + (byte (cs ! 0) mod 64) * 64 + byte (cs ! 1) mod 64, 3)
      else (RuneError, 1))"
  by (auto simp: Let_def not_less Suc_le_eq not_le less_Suc_eq_le)

lemma DecodeRune_4:
  "first_size (byte c) = 4 \<Longrightarrow>
   DecodeRune (c # cs) =
     (if 3 \<le> length cs \<and> accept_lo (byte c) \<le> byte (cs ! 0)
         \<and> byte (cs ! 0) \<le> accept_hi (byte c) \<and> is_cont (byte (cs ! 1))
         \<and> is_cont (byte (cs ! 2))
      then ((byte c mod 8) * 262144 + (byte (cs ! 0) mod 64) * 4096
            + (byte (cs ! 1) mod 64) * 64 + byte (cs ! 2) mod 64, 4)
      else (RuneError, 1))"
  by (auto simp: Let_def not_less Suc_le_eq not_le less_Suc_eq_le)

text \<open>A well-formed encoding decodes to a rune whose encoding it is.\<close>

lemma EncodeRune_DecodeRune:
  assumes d: "DecodeRune (c # cs) = (r, n)" and w: "n \<noteq> 1 \<or> byte c < 0x80"
  shows "EncodeRune r = take n (c # cs)"
proof -
  define a where "a = byte c"
  define sz where "sz = first_size a"
  have "sz = 1 \<or> sz = 0 \<or> sz = 2 \<or> sz = 3 \<or> sz = 4"
    unfolding sz_def first_size_def by simp
  then consider "sz = 1" | "sz = 0" | "sz = 2" | "sz = 3" | "sz = 4" by blast
  then show ?thesis
  proof cases
    case 1
    then have "a < 0x80" unfolding sz_def first_size_def by (auto split: if_splits)
    moreover from 1 d have "r = a" "n = 1"
      using DecodeRune_1[of c cs] by (simp_all add: a_def sz_def del: DecodeRune.simps)
    ultimately show ?thesis by (simp add: EncodeRune_def a_def byte_char_byte)
  next
    case 2
    then have "\<not> a < 0x80" unfolding sz_def first_size_def by (auto split: if_splits)
    moreover from 2 d have "n = 1" using DecodeRune_0[of c cs] by (simp add: a_def sz_def del: DecodeRune.simps)
    ultimately show ?thesis using w by (simp add: a_def)
  next
    case 3
    then have ra: "194 \<le> a" "a < 224" unfolding sz_def first_size_def by (auto split: if_splits)
    then have acc: "accept_lo a = 128" "accept_hi a = 191"
      by (simp_all add: accept_lo_def accept_hi_def)
    define b where "b = byte (cs ! 0)"
    from 3 have eq: "DecodeRune (c # cs) =
        (if 1 \<le> length cs \<and> 128 \<le> b \<and> b \<le> 191
         then ((a mod 32) * 64 + b mod 64, 2) else (RuneError, 1))"
      using DecodeRune_2[of c cs] by (simp del: DecodeRune.simps add: a_def[symmetric] sz_def b_def acc)
    have ok: "1 \<le> length cs \<and> 128 \<le> b \<and> b \<le> 191"
    proof (rule ccontr)
      assume "\<not> ?thesis"
      with d[unfolded eq] have "n = 1" by (auto split: if_splits)
      with w ra show False by (simp add: a_def)
    qed
    then obtain x xs where cs: "cs = x # xs" by (cases cs) auto
    from ok have rb: "128 \<le> b" "b < 192" by simp_all
    from d[unfolded eq] ok have r: "r = (a mod 32) * 64 + b mod 64" and n: "n = 2" by simp_all
    have r': "r = (a - 192) * 64 + (b - 128)" unfolding r using ra rb by (simp add: mod32 mod64)
    have q: "b - 128 < 64" using rb by simp
    have lo: "\<not> r \<le> 0x7F" using ra unfolding r' by simp
    have "(a - 192) * 64 \<le> 31 * 64" using ra by simp
    then have hi: "r \<le> 0x7FF" using q unfolding r' by simp
    have "EncodeRune r = [byte_char (0xC0 + r div 64), byte_char (0x80 + r mod 64)]"
      using lo hi by (simp add: EncodeRune_def)
    also have "\<dots> = [byte_char a, byte_char b]"
      unfolding r' split2[OF q] using ra rb by simp
    also have "\<dots> = take n (c # cs)"
      unfolding n cs by (simp add: a_def b_def cs byte_char_byte)
    finally show ?thesis .
  next
    case 4
    then have ra: "224 \<le> a" "a < 240" unfolding sz_def first_size_def by (auto split: if_splits)
    define b where "b = byte (cs ! 0)"
    define e where "e = byte (cs ! 1)"
    from 4 have eq: "DecodeRune (c # cs) =
        (if 2 \<le> length cs \<and> accept_lo a \<le> b \<and> b \<le> accept_hi a \<and> is_cont e
         then ((a mod 16) * 4096 + (b mod 64) * 64 + e mod 64, 3) else (RuneError, 1))"
      using DecodeRune_3[of c cs] by (simp del: DecodeRune.simps add: a_def[symmetric] sz_def b_def e_def)
    have ok: "2 \<le> length cs \<and> accept_lo a \<le> b \<and> b \<le> accept_hi a \<and> is_cont e"
    proof (rule ccontr)
      assume "\<not> ?thesis"
      with d[unfolded eq] have "n = 1" by (auto split: if_splits)
      with w ra show False by (simp add: a_def)
    qed
    then obtain x y xs where cs: "cs = x # y # xs"
      by (cases cs; cases "tl cs") auto
    from ok have rb: "128 \<le> b" "b < 192"
      by (auto simp: accept_lo_def accept_hi_def split: if_splits)
    from ok have re: "128 \<le> e" "e < 192" by (simp_all add: is_cont_def)
    from d[unfolded eq] ok have r: "r = (a mod 16) * 4096 + (b mod 64) * 64 + e mod 64" and n: "n = 3"
      by simp_all
    have r': "r = (a - 224) * 4096 + (b - 128) * 64 + (e - 128)"
      unfolding r using ra rb re by (simp add: mod16 mod64)
    have q: "b - 128 < 64" "e - 128 < 64" using rb re by simp_all
    have low: "2048 \<le> (a - 224) * 4096 + (b - 128) * 64"
    proof (cases "a = 224")
      case True
      with ok have "160 \<le> b" by (simp add: accept_lo_def)
      then have "32 * 64 \<le> (b - 128) * 64" by simp
      then show ?thesis by simp
    next
      case False
      with ra have "1 * 4096 \<le> (a - 224) * 4096" by simp
      then show ?thesis by simp
    qed
    then have lo: "\<not> r \<le> 0x7FF" unfolding r' by simp
    have "(a - 224) * 4096 \<le> 15 * 4096" using ra by simp
    moreover have "(b - 128) * 64 \<le> 63 * 64" using q by simp
    ultimately have hi: "r \<le> 0xFFFF" using q unfolding r' by simp
    have sur: "\<not> (0xD800 \<le> r \<and> r \<le> 0xDFFF)"
    proof (cases "a = 237")
      case True
      with ok have "b \<le> 159" by (simp add: accept_hi_def)
      then have "(b - 128) * 64 \<le> 31 * 64" by simp
      with True q show ?thesis unfolding r' by simp
    next
      case False
      show ?thesis
      proof (cases "a < 237")
        case True
        then have "(a - 224) * 4096 \<le> 12 * 4096" by simp
        moreover have "(b - 128) * 64 \<le> 63 * 64" using q by simp
        ultimately show ?thesis using q unfolding r' by simp
      next
        case False
        with \<open>a \<noteq> 237\<close> have "14 * 4096 \<le> (a - 224) * 4096" by simp
        then show ?thesis unfolding r' by simp
      qed
    qed
    have "EncodeRune r = [byte_char (0xE0 + r div 4096), byte_char (0x80 + (r div 64) mod 64),
                          byte_char (0x80 + r mod 64)]"
      using lo hi sur by (auto simp: EncodeRune_def)
    also have "\<dots> = [byte_char a, byte_char b, byte_char e]"
      unfolding r' split3[OF q] using ra rb re by simp
    also have "\<dots> = take n (c # cs)"
      unfolding n cs by (simp add: a_def b_def e_def cs byte_char_byte)
    finally show ?thesis .
  next
    case 5
    then have ra: "240 \<le> a" "a < 245" unfolding sz_def first_size_def by (auto split: if_splits)
    define b where "b = byte (cs ! 0)"
    define e where "e = byte (cs ! 1)"
    define f where "f = byte (cs ! 2)"
    from 5 have eq: "DecodeRune (c # cs) =
        (if 3 \<le> length cs \<and> accept_lo a \<le> b \<and> b \<le> accept_hi a \<and> is_cont e \<and> is_cont f
         then ((a mod 8) * 262144 + (b mod 64) * 4096 + (e mod 64) * 64 + f mod 64, 4)
         else (RuneError, 1))"
      using DecodeRune_4[of c cs] by (simp del: DecodeRune.simps add: a_def[symmetric] sz_def b_def e_def f_def)
    have ok: "3 \<le> length cs \<and> accept_lo a \<le> b \<and> b \<le> accept_hi a \<and> is_cont e \<and> is_cont f"
    proof (rule ccontr)
      assume "\<not> ?thesis"
      with d[unfolded eq] have "n = 1" by (auto split: if_splits)
      with w ra show False by (simp add: a_def)
    qed
    then obtain x y z xs where cs: "cs = x # y # z # xs"
      by (cases cs; cases "tl cs"; cases "tl (tl cs)") auto
    from ok have rb: "128 \<le> b" "b < 192"
      by (auto simp: accept_lo_def accept_hi_def split: if_splits)
    from ok have re: "128 \<le> e" "e < 192" and rf: "128 \<le> f" "f < 192"
      by (simp_all add: is_cont_def)
    from d[unfolded eq] ok have r: "r = (a mod 8) * 262144 + (b mod 64) * 4096 + (e mod 64) * 64 + f mod 64"
      and n: "n = 4"
      by simp_all
    have r': "r = (a - 240) * 262144 + (b - 128) * 4096 + (e - 128) * 64 + (f - 128)"
      unfolding r using ra rb re rf by (simp add: mod8 mod64)
    have q: "b - 128 < 64" "e - 128 < 64" "f - 128 < 64" using rb re rf by simp_all
    have low: "65536 \<le> (a - 240) * 262144 + (b - 128) * 4096"
    proof (cases "a = 240")
      case True
      with ok have "144 \<le> b" by (simp add: accept_lo_def)
      then have "16 * 4096 \<le> (b - 128) * 4096" by simp
      then show ?thesis by simp
    next
      case False
      with ra have "1 * 262144 \<le> (a - 240) * 262144" by simp
      then show ?thesis by simp
    qed
    then have lo: "\<not> r \<le> 0xFFFF" unfolding r' by simp
    have hi: "\<not> 0x10FFFF < r"
    proof (cases "a = 244")
      case True
      with ok have "b \<le> 143" by (simp add: accept_hi_def)
      then have "(b - 128) * 4096 \<le> 15 * 4096" by simp
      moreover have "(e - 128) * 64 \<le> 63 * 64" using q by simp
      ultimately show ?thesis using True q unfolding r' by simp
    next
      case False
      with ra have "(a - 240) * 262144 \<le> 3 * 262144" by simp
      moreover have "(b - 128) * 4096 \<le> 63 * 4096" using q by simp
      moreover have "(e - 128) * 64 \<le> 63 * 64" using q by simp
      ultimately show ?thesis using q unfolding r' by simp
    qed
    have "EncodeRune r = [byte_char (0xF0 + r div 262144), byte_char (0x80 + (r div 4096) mod 64),
                          byte_char (0x80 + (r div 64) mod 64), byte_char (0x80 + r mod 64)]"
      using lo hi by (simp add: EncodeRune_def)
    also have "\<dots> = [byte_char a, byte_char b, byte_char e, byte_char f]"
      unfolding r' split4[OF q] using ra rb re rf by simp
    also have "\<dots> = take n (c # cs)"
      unfolding n cs by (simp add: a_def b_def e_def f_def cs byte_char_byte)
    finally show ?thesis .
  qed
qed

text \<open>On ASCII text, lower-casing maps the upper-case letters and keeps every other byte.\<close>

lemma ToLower_ascii:
  assumes "list_all (\<lambda>c. byte c < 0x80) s"
  shows "ToLower u s =
           map (\<lambda>c. if 0x41 \<le> byte c \<and> byte c \<le> 0x5A then byte_char (byte c + 32) else c) s"
  using assms
proof (induction s)
  case Nil
  then show ?case by (simp add: ToLower_def Map_runes_def)
next
  case (Cons c cs)
  then have c: "byte c < 0x80" and r: "list_all (\<lambda>c. byte c < 0x80) cs" by simp_all
  from c have d: "DecodeRune (c # cs) = (byte c, 1)" by (simp add: first_size_def Let_def)
  have "ToLower u (c # cs) = EncodeRune (unicode_ToLower u (byte c)) @ ToLower u cs"
    unfolding ToLower_def Map_runes_def by (simp add: d del: DecodeRune.simps)
  moreover have "EncodeRune (unicode_ToLower u (byte c)) =
        [if 0x41 \<le> byte c \<and> byte c \<le> 0x5A then byte_char (byte c + 32) else c]"
    using c by (simp add: EncodeRune_def unicode_ToLower_def byte_char_byte)
  ultimately show ?case using Cons.IH[OF r] by simp
qed

text \<open>So the tables play no part on ASCII text.\<close>

lemma ToLower_tables:
  "list_all (\<lambda>c. byte c < 0x80) s \<Longrightarrow> ToLower u s = ToLower u' s"
  by (simp add: ToLower_ascii)

lemma extractCacheUsage_tables:
  "list_all (\<lambda>c. byte c < 0x80) s \<Longrightarrow> extractCacheUsage u s = extractCacheUsage u' s"
  by (simp add: extractCacheUsage_def ToLower_tables[of s u u'])

text \<open>
  Beyond ASCII. The capital I with dot above is lower-cased to \<open>i\<close>, so that a text
  holding \<open>RED\<close>, that letter and \<open>S\<close> names redis; the long s matches the literal
  \<open>s\<close> of a pattern; a byte that starts no encoding is matched by \<open>.\<close> and is
  lower-cased to the three bytes of \<open>U+FFFD\<close>; the no-break space is trimmed.
\<close>

lemma ToLower_dotted_I:
  "LowerCase u 0x130 = 0x69 \<Longrightarrow> ToLower u (''RED'' @ [CHR 0xC4, CHR 0xB0] @ ''S'') = ''redis''"
  by (simp add: text_eval)

lemma extractCacheUsage_dotted_I:
  "extractCacheUsage latin1Unicode (''RED'' @ [CHR 0xC4, CHR 0xB0] @ ''S'') = [''redis'']"
  by (simp add: extractCacheUsage_def cacheTypes_def text_eval latin1Unicode_def)

lemma extractNumber_long_s:
  "extractNumber (''37 databa'' @ [CHR 0xC5, CHR 0xBF] @ ''e'') pattern_database = 37"
  by (simp add: text_eval pat_eval ext_eval)

lemma extractNumber_invalid_byte:
  "extractNumber (''5'' @ [CHR 0xFF, CHR 0xC3] @ ''query'') pattern_database = 5"
  by (simp add: text_eval pat_eval ext_eval)

lemma ToLower_invalid_byte:
  "ToLower latin1Unicode (''A'' @ [CHR 0xFF]) = ''a'' @ [CHR 0xEF, CHR 0xBF, CHR 0xBD]"
  by (simp add: text_eval latin1Unicode_def)

lemma TrimSpace_no_break_space:
  "TrimSpace u ([CHR 0xC2, CHR 0xA0] @ '' a b '' @ [CHR 0xC2, CHR 0x85]) = ''a b''"
  by (simp add: text_eval)

lemma HasPrefix_iff: "HasPrefix s p \<longleftrightarrow> (\<exists>post. s = p @ post)"
  by (induction s p rule: HasPrefix.induct) auto

lemma Contains_iff: "Contains s sub \<longleftrightarrow> (\<exists>pre post. s = pre @ sub @ post)"
proof (induction s)
  case Nil
  then show ?case by auto
next
  case (Cons c cs)
  show ?case
  proof
    assume "Contains (c # cs) sub"
    then consider "HasPrefix (c # cs) sub" | "Contains cs sub" by auto
    then show "\<exists>pre post. c # cs = pre @ sub @ post"
    proof cases
      case 1
      then obtain post where "c # cs = sub @ post" by (auto simp: HasPrefix_iff)
      then have "c # cs = [] @ sub @ post" by simp
      then show ?thesis by blast
    next
      case 2
      then obtain pre post where "cs = pre @ sub @ post" using Cons.IH by blast
      then have "c # cs = (c # pre) @ sub @ post" by simp
      then show ?thesis by blast
    qed
  next
    assume "\<exists>pre post. c # cs = pre @ sub @ post"
    then obtain pre post where e: "c # cs = pre @ sub @ post" by blast
    show "Contains (c # cs) sub"
    proof (cases pre)
      case Nil
      with e have "HasPrefix (c # cs) sub" by (auto simp: HasPrefix_iff)
      then show ?thesis by simp
    next
      case (Cons p ps)
      with e have "cs = ps @ sub @ post" by simp
      then have "Contains cs sub" using Cons.IH by blast
      then show ?thesis by simp
    qed
  qed
qed

lemma foldl_append_filter:
  "foldl (\<lambda>acc x. if P x then acc @ [x] else acc) acc xs = acc @ filter P xs"
  by (induction xs arbitrary: acc) auto

text \<open>
  Claim C8, as amended. For every text, \<open>extractCacheUsage\<close> returns exactly the names
  of the vocabulary \<open>redis, memcached, memory cache, cdn, browser cache\<close> that occur as a
  substring of the text lower-cased by \<open>strings.ToLower\<close>, in the order of the
  vocabulary, whatever the tables of package \<open>unicode\<close>.
\<close>

theorem extractCacheUsage_spec:
  "extractCacheUsage u text =
     filter (\<lambda>name. \<exists>pre post. ToLower u text = pre @ name @ post)
       [''redis'', ''memcached'', ''memory cache'', ''cdn'', ''browser cache'']"
  unfolding extractCacheUsage_def Let_def foldl_append_filter cacheTypes_def Contains_iff
  by simp

text \<open>
  Claim C8 as stated fails: the code's vocabulary has \<open>memory cache\<close> where the claim
  has \<open>in-process cache\<close>, and \<open>cdn\<close> where the claim has \<open>CDN\<close>, which no lower-cased
  text contains.
\<close>

theorem extractCacheUsage_counterexample:
  "extractCacheUsage latin1Unicode ''in-process cache behind a CDN'' = [''cdn'']
   \<and> spec_extract_cache_technologies latin1Unicode ''in-process cache behind a CDN'' = [''in-process cache'']
   \<and> extractCacheUsage latin1Unicode ''in-process cache behind a CDN'' \<noteq>
       spec_extract_cache_technologies latin1Unicode ''in-process cache behind a CDN''"
  by (simp add: spec_extract_cache_technologies_def spec_cache_vocabulary_def
                extractCacheUsage_def cacheTypes_def text_eval)

text \<open>
  Claim C7. When the tool answers the database/API prompt with the text \<open>Found 37
  database calls and complexity score: 72. Uses Redis for caching.\<close>, the pass sets the
  database calls to 37, the complexity score to 72 and the cache usage to the list of
  \<open>redis\<close> alone (and clears the N+1 flag); it changes nothing else.
\<close>

theorem analyzeDatabaseAndAPI_example:
  "analyzeDatabaseAndAPI u
     (w\<lparr>RunClaude := (\<lambda>prompt dir.
           Inr ''Found 37 database calls and complexity score: 72. Uses Redis for caching.'')\<rparr>)
     c analysis =
   Inr (analysis\<lparr>DatabaseCalls := 37, ComplexityScore := 72, CacheUsage := [''redis''],
                 Performance := (Performance analysis)\<lparr>HasNPlusOneQuery := False\<rparr>\<rparr>)"
proof -
  let ?t = "''Found 37 database calls and complexity score: 72. Uses Redis for caching.''"
  have 1: "extractNumber ?t pattern_database = 37"
    by (simp add: text_eval pat_eval ext_eval)
  have 2: "extractComplexity ?t = 72"
    by (simp add: extractComplexity_def text_eval pat_eval ext_eval)
  have 3: "extractCacheUsage u ?t = [''redis'']"
    by (simp add: extractCacheUsage_def cacheTypes_def text_eval)
  have 4: "\<not> Contains (ToLower u ?t) ''n+1''" "\<not> Contains (ToLower u ?t) ''n plus one''"
    by (simp_all add: text_eval)
  show ?thesis
    by (simp add: analyzeDatabaseAndAPI_def runClaudeCommand_def 1 2 3 4)
qed

text \<open>
  Claim C6. In the resource pass, a memory figure that extracts to zero is replaced by
  the value of the complexity table (2048 from 80, 1024 from 60, 512 from 40, else 256)
  and a CPU figure that extracts to zero by the value of the endpoint table (4 from 50,
  2 from 20, 1 from 10, else 0.5); with complexity 85 and 3 endpoints the pass gives
  2048 and 0.5.
\<close>

theorem estimateResources_fallback:
  assumes "runClaudeCommand w c (prompt_resources analysis) = Inr output"
  shows "\<exists>a'. estimateResources w c analysis = Inr a'
     \<and> (extractNumber output pattern_memory = 0 \<longrightarrow>
          MemoryMB (ResourceUsage a') =
            (if ComplexityScore analysis \<ge> 80 then 2048
             else if ComplexityScore analysis \<ge> 60 then 1024
             else if ComplexityScore analysis \<ge> 40 then 512 else 256))
     \<and> (extractFloat output pattern_cpu = Finite 0 \<longrightarrow>
          CPUCores (ResourceUsage a') =
            (if ApiEndpoints analysis \<ge> 50 then Finite 4
             else if ApiEndpoints analysis \<ge> 20 then Finite 2
             else if ApiEndpoints analysis \<ge> 10 then Finite 1 else Finite (1 / 2)))
     \<and> (extractNumber output pattern_memory = 0 \<and> extractFloat output pattern_cpu = Finite 0
          \<and> ComplexityScore analysis = 85 \<and> ApiEndpoints analysis = 3 \<longrightarrow>
          MemoryMB (ResourceUsage a') = 2048 \<and> CPUCores (ResourceUsage a') = Finite (1 / 2))"
  using assms
  by (simp add: estimateResources_def Let_def f64_is_zero_def estimateMemoryFromComplexity_def
                estimateCPUFromEndpoints_def)

theorem estimateResources_fallback_witness:
  "runClaudeCommand (answeringWorld ''no estimate'') someClient
     (prompt_resources (zeroReport\<lparr>ApiEndpoints := 3, ComplexityScore := 85\<rparr>)) = Inr ''no estimate''
   \<and> extractNumber ''no estimate'' pattern_memory = 0
   \<and> extractFloat ''no estimate'' pattern_cpu = Finite 0
   \<and> (\<exists>a'. estimateResources (answeringWorld ''no estimate'') someClient
              (zeroReport\<lparr>ApiEndpoints := 3, ComplexityScore := 85\<rparr>) = Inr a'
          \<and> MemoryMB (ResourceUsage a') = 2048 \<and> CPUCores (ResourceUsage a') = Finite (1 / 2))"
proof -
  let ?a = "zeroReport\<lparr>ApiEndpoints := 3, ComplexityScore := 85\<rparr>"
  have r: "runClaudeCommand (answeringWorld ''no estimate'') someClient (prompt_resources ?a)
           = Inr ''no estimate''"
    by (simp add: runClaudeCommand_def answeringWorld_def)
  have m: "extractNumber ''no estimate'' pattern_memory = 0"
    by (simp add: text_eval pat_eval ext_eval)
  have p: "extractFloat ''no estimate'' pattern_cpu = Finite 0"
    by (simp add: text_eval pat_eval ext_eval)
  have f: "ComplexityScore ?a = 85" "ApiEndpoints ?a = 3" by simp_all
  from estimateResources_fallback[OF r] m p f r show ?thesis by auto
qed

lemma runClaudeCommand_Inl:
  "runClaudeCommand w c p = Inl e \<longleftrightarrow>
     (\<exists>err out. RunClaude w p (projectDir c) = Inl (err, out)
        \<and> e = ''claude command failed: '' @ err @ [newline] @ ''Output: '' @ out)"
  by (auto simp: runClaudeCommand_def split: sum.splits prod.splits)

lemma pass_fails_iff:
  "analyzeBasicStructure u w c a = Inl e \<longleftrightarrow> runClaudeCommand w c prompt_basic = Inl e"
  "analyzeDatabaseAndAPI u w c a = Inl e \<longleftrightarrow> runClaudeCommand w c prompt_database = Inl e"
  "analyzePerformanceAndScaling u w c a = Inl e \<longleftrightarrow> runClaudeCommand w c prompt_performance = Inl e"
  "estimateResources w c a = Inl e \<longleftrightarrow> runClaudeCommand w c (prompt_resources a) = Inl e"
  by (auto simp: analyzeBasicStructure_def analyzeDatabaseAndAPI_def
        analyzePerformanceAndScaling_def estimateResources_def Let_def
      split: sum.splits option.splits)

lemma pass_succeeds:
  "analyzeBasicStructure u w c a = Inr b \<Longrightarrow> \<exists>out. runClaudeCommand w c prompt_basic = Inr out"
  "analyzeDatabaseAndAPI u w c a = Inr b \<Longrightarrow> \<exists>out. runClaudeCommand w c prompt_database = Inr out"
  "analyzePerformanceAndScaling u w c a = Inr b \<Longrightarrow>
     \<exists>out. runClaudeCommand w c prompt_performance = Inr out"
  "estimateResources w c a = Inr b \<Longrightarrow> \<exists>out. runClaudeCommand w c (prompt_resources a) = Inr out"
  by (auto simp: analyzeBasicStructure_def analyzeDatabaseAndAPI_def
        analyzePerformanceAndScaling_def estimateResources_def Let_def
      split: sum.splits option.splits)

text \<open>
  Claim C5. \<open>Client.Analyze\<close> returns an error and no report when the tool is not
  installed, and when the run of the tool fails in any of the four passes: the error is
  then the error of that run under the prefix of the pass. It returns a report only when
  the tool is installed and all four runs have succeeded.
\<close>

theorem claude_Analyze_pass_failure:
  "(\<not> IsInstalled w \<longrightarrow> claude_Analyze u w c pid = Inl ''Claude Code CLI not installed'')
   \<and> (IsInstalled w
        \<and> runClaudeCommand w c prompt_basic = Inl e \<longrightarrow>
          claude_Analyze u w c pid = Inl (''basic analysis failed: '' @ e))
   \<and> (IsInstalled w
        \<and> analyzeBasicStructure u w c (newCodeAnalysis pid (Now w) (projectDir c)) = Inr a1
        \<and> runClaudeCommand w c prompt_database = Inl e \<longrightarrow>
          claude_Analyze u w c pid = Inl (''database/API analysis failed: '' @ e))
   \<and> (IsInstalled w
        \<and> analyzeBasicStructure u w c (newCodeAnalysis pid (Now w) (projectDir c)) = Inr a1
        \<and> analyzeDatabaseAndAPI u w c a1 = Inr a2
        \<and> runClaudeCommand w c prompt_performance = Inl e \<longrightarrow>
          claude_Analyze u w c pid = Inl (''performance analysis failed: '' @ e))
   \<and> (IsInstalled w
        \<and> analyzeBasicStructure u w c (newCodeAnalysis pid (Now w) (projectDir c)) = Inr a1
        \<and> analyzeDatabaseAndAPI u w c a1 = Inr a2
        \<and> analyzePerformanceAndScaling u w c a2 = Inr a3
        \<and> runClaudeCommand w c (prompt_resources a3) = Inl e \<longrightarrow>
          claude_Analyze u w c pid = Inl (''resource estimation failed: '' @ e))
   \<and> (claude_Analyze u w c pid = Inr a \<longrightarrow>
        IsInstalled w
        \<and> (\<exists>o1 o2 o3 o4 b1 b2 b3.
              runClaudeCommand w c prompt_basic = Inr o1
            \<and> analyzeBasicStructure u w c (newCodeAnalysis pid (Now w) (projectDir c)) = Inr b1
            \<and> runClaudeCommand w c prompt_database = Inr o2
            \<and> analyzeDatabaseAndAPI u w c b1 = Inr b2
            \<and> runClaudeCommand w c prompt_performance = Inr o3
            \<and> analyzePerformanceAndScaling u w c b2 = Inr b3
            \<and> runClaudeCommand w c (prompt_resources b3) = Inr o4
            \<and> estimateResources w c b3 = Inr a))"
proof -
  let ?a0 = "newCodeAnalysis pid (Now w) (projectDir c)"
  have 0: "\<not> IsInstalled w \<longrightarrow> claude_Analyze u w c pid = Inl ''Claude Code CLI not installed''"
    by (simp add: claude_Analyze_def)
  have 1: "claude_Analyze u w c pid = Inl (''basic analysis failed: '' @ e)"
    if "IsInstalled w" "runClaudeCommand w c prompt_basic = Inl e"
  proof -
    from that(2) have "analyzeBasicStructure u w c ?a0 = Inl e" by (simp add: pass_fails_iff)
    with that(1) show ?thesis by (simp add: claude_Analyze_def Let_def)
  qed
  have 2: "claude_Analyze u w c pid = Inl (''database/API analysis failed: '' @ e)"
    if "IsInstalled w" "analyzeBasicStructure u w c ?a0 = Inr a1"
      "runClaudeCommand w c prompt_database = Inl e"
  proof -
    from that(3) have "analyzeDatabaseAndAPI u w c a1 = Inl e" by (simp add: pass_fails_iff)
    with that(1,2) show ?thesis by (simp add: claude_Analyze_def Let_def)
  qed
  have 3: "claude_Analyze u w c pid = Inl (''performance analysis failed: '' @ e)"
    if "IsInstalled w" "analyzeBasicStructure u w c ?a0 = Inr a1"
      "analyzeDatabaseAndAPI u w c a1 = Inr a2"
      "runClaudeCommand w c prompt_performance = Inl e"
  proof -
    from that(4) have "analyzePerformanceAndScaling u w c a2 = Inl e"
      by (simp add: pass_fails_iff)
    with that(1,2,3) show ?thesis by (simp add: claude_Analyze_def Let_def)
  qed
  have 4: "claude_Analyze u w c pid = Inl (''resource estimation failed: '' @ e)"
    if "IsInstalled w" "analyzeBasicStructure u w c ?a0 = Inr a1"
      "analyzeDatabaseAndAPI u w c a1 = Inr a2"
      "analyzePerformanceAndScaling u w c a2 = Inr a3"
      "runClaudeCommand w c (prompt_resources a3) = Inl e"
  proof -
    from that(5) have "estimateResources w c a3 = Inl e" by (simp add: pass_fails_iff)
    with that(1,2,3,4) show ?thesis by (simp add: claude_Analyze_def Let_def)
  qed
  have 5: "claude_Analyze u w c pid = Inr a \<longrightarrow>
        IsInstalled w
        \<and> (\<exists>o1 o2 o3 o4 b1 b2 b3.
              runClaudeCommand w c prompt_basic = Inr o1
            \<and> analyzeBasicStructure u w c ?a0 = Inr b1
            \<and> runClaudeCommand w c prompt_database = Inr o2
            \<and> analyzeDatabaseAndAPI u w c b1 = Inr b2
            \<and> runClaudeCommand w c prompt_performance = Inr o3
            \<and> analyzePerformanceAndScaling u w c b2 = Inr b3
            \<and> runClaudeCommand w c (prompt_resources b3) = Inr o4
            \<and> estimateResources w c b3 = Inr a)"
  proof
    assume s: "claude_Analyze u w c pid = Inr a"
    then have i: "IsInstalled w" by (auto simp: claude_Analyze_def split: if_splits)
    from s i obtain b1 where b1: "analyzeBasicStructure u w c ?a0 = Inr b1"
      by (auto simp: claude_Analyze_def Let_def split: sum.splits)
    from s i b1 obtain b2 where b2: "analyzeDatabaseAndAPI u w c b1 = Inr b2"
      by (auto simp: claude_Analyze_def Let_def split: sum.splits)
    from s i b1 b2 obtain b3 where b3: "analyzePerformanceAndScaling u w c b2 = Inr b3"
      by (auto simp: claude_Analyze_def Let_def split: sum.splits)
    from s i b1 b2 b3 have b4: "estimateResources w c b3 = Inr a"
      by (auto simp: claude_Analyze_def Let_def split: sum.splits)
    from pass_succeeds(1)[OF b1] obtain o1 where "runClaudeCommand w c prompt_basic = Inr o1" by blast
    moreover from pass_succeeds(2)[OF b2] obtain o2 where "runClaudeCommand w c prompt_database = Inr o2" by blast
    moreover from pass_succeeds(3)[OF b3] obtain o3 where "runClaudeCommand w c prompt_performance = Inr o3" by blast
    moreover from pass_succeeds(4)[OF b4] obtain o4 where "runClaudeCommand w c (prompt_resources b3) = Inr o4" by blast
    ultimately show "IsInstalled w
        \<and> (\<exists>o1 o2 o3 o4 b1 b2 b3.
              runClaudeCommand w c prompt_basic = Inr o1
            \<and> analyzeBasicStructure u w c ?a0 = Inr b1
            \<and> runClaudeCommand w c prompt_database = Inr o2
            \<and> analyzeDatabaseAndAPI u w c b1 = Inr b2
            \<and> runClaudeCommand w c prompt_performance = Inr o3
            \<and> analyzePerformanceAndScaling u w c b2 = Inr b3
            \<and> runClaudeCommand w c (prompt_resources b3) = Inr o4
            \<and> estimateResources w c b3 = Inr a)"
      using i b1 b2 b3 b4 by blast
  qed
  from 0 1 2 3 4 5 show ?thesis by blast
qed

lemma pass_runs:
  "runClaudeCommand w c prompt_basic = Inr out \<Longrightarrow> \<exists>b. analyzeBasicStructure u w c a = Inr b"
  "runClaudeCommand w c prompt_database = Inr out \<Longrightarrow> \<exists>b. analyzeDatabaseAndAPI u w c a = Inr b"
  "runClaudeCommand w c prompt_performance = Inr out \<Longrightarrow>
     \<exists>b. analyzePerformanceAndScaling u w c a = Inr b"
  by (auto simp: analyzeBasicStructure_def analyzeDatabaseAndAPI_def
        analyzePerformanceAndScaling_def split: option.splits)

lemma failingWorld_run:
  "runClaudeCommand (failingWorld P) c prompt = (if P prompt then Inl toolError else Inr [])"
  by (simp add: runClaudeCommand_def failingWorld_def toolError_def)

lemma failingWorld_installed: "IsInstalled (failingWorld P)"
  by (simp add: IsInstalled_def failingWorld_def)

lemma prompt_prefixes:
  "HasPrefix prompt_basic ''Analyze this''"
  "\<not> HasPrefix prompt_basic ''Analyze database''"
  "\<not> HasPrefix prompt_basic ''Identify''"
  "\<not> HasPrefix prompt_basic ''Based on''"
  "HasPrefix prompt_database ''Analyze database''"
  "\<not> HasPrefix prompt_database ''Identify''"
  "\<not> HasPrefix prompt_database ''Based on''"
  "HasPrefix prompt_performance ''Identify''"
  "\<not> HasPrefix prompt_performance ''Based on''"
  "HasPrefix (prompt_resources a) ''Based on''"
  by (simp_all add: prompt_basic_def prompt_database_def prompt_performance_def
        prompt_resources_def unlines_def)

theorem claude_Analyze_pass_failure_witness:
  "claude_Analyze latin1Unicode ((failingWorld (\<lambda>p. False))\<lparr>LookPath := False\<rparr>) someClient ''p''
     = Inl ''Claude Code CLI not installed''
   \<and> claude_Analyze latin1Unicode (failingWorld (\<lambda>p. HasPrefix p ''Analyze this'')) someClient ''p''
     = Inl (''basic analysis failed: '' @ toolError)
   \<and> claude_Analyze latin1Unicode (failingWorld (\<lambda>p. HasPrefix p ''Analyze database'')) someClient ''p''
     = Inl (''database/API analysis failed: '' @ toolError)
   \<and> claude_Analyze latin1Unicode (failingWorld (\<lambda>p. HasPrefix p ''Identify'')) someClient ''p''
     = Inl (''performance analysis failed: '' @ toolError)
   \<and> claude_Analyze latin1Unicode (failingWorld (\<lambda>p. HasPrefix p ''Based on'')) someClient ''p''
     = Inl (''resource estimation failed: '' @ toolError)"
proof -
  let ?c = someClient
  let ?w0 = "(failingWorld (\<lambda>p. False))\<lparr>LookPath := False\<rparr>"
  let ?w1 = "failingWorld (\<lambda>p. HasPrefix p ''Analyze this'')"
  let ?w2 = "failingWorld (\<lambda>p. HasPrefix p ''Analyze database'')"
  let ?w3 = "failingWorld (\<lambda>p. HasPrefix p ''Identify'')"
  let ?w4 = "failingWorld (\<lambda>p. HasPrefix p ''Based on'')"
  have n: "\<not> IsInstalled ?w0" by (simp add: IsInstalled_def failingWorld_def)
  have 0: "claude_Analyze latin1Unicode ?w0 ?c ''p'' = Inl ''Claude Code CLI not installed''"
    using claude_Analyze_pass_failure[of ?w0 latin1Unicode ?c "''p''"] n by blast
  have r1: "runClaudeCommand ?w1 ?c prompt_basic = Inl toolError"
    by (simp add: failingWorld_run prompt_prefixes)
  have 1: "claude_Analyze latin1Unicode ?w1 ?c ''p'' = Inl (''basic analysis failed: '' @ toolError)"
    using claude_Analyze_pass_failure[of ?w1 latin1Unicode ?c "''p''" toolError] failingWorld_installed r1
    by blast
  obtain a1 where a1: "analyzeBasicStructure latin1Unicode ?w2 ?c
      (newCodeAnalysis ''p'' (Now ?w2) (projectDir ?c)) = Inr a1"
    using pass_runs(1)[of ?w2 ?c "[]" latin1Unicode] by (auto simp: failingWorld_run prompt_prefixes)
  have r2: "runClaudeCommand ?w2 ?c prompt_database = Inl toolError"
    by (simp add: failingWorld_run prompt_prefixes)
  have 2: "claude_Analyze latin1Unicode ?w2 ?c ''p'' = Inl (''database/API analysis failed: '' @ toolError)"
    using claude_Analyze_pass_failure[of ?w2 latin1Unicode ?c "''p''" toolError a1] failingWorld_installed
      a1 r2 by blast
  obtain b1 where b1: "analyzeBasicStructure latin1Unicode ?w3 ?c
      (newCodeAnalysis ''p'' (Now ?w3) (projectDir ?c)) = Inr b1"
    using pass_runs(1)[of ?w3 ?c "[]" latin1Unicode] by (auto simp: failingWorld_run prompt_prefixes)
  obtain b2 where b2: "analyzeDatabaseAndAPI latin1Unicode ?w3 ?c b1 = Inr b2"
    using pass_runs(2)[of ?w3 ?c "[]" latin1Unicode] by (auto simp: failingWorld_run prompt_prefixes)
  have r3: "runClaudeCommand ?w3 ?c prompt_performance = Inl toolError"
    by (simp add: failingWorld_run prompt_prefixes)
  have 3: "claude_Analyze latin1Unicode ?w3 ?c ''p'' = Inl (''performance analysis failed: '' @ toolError)"
    using claude_Analyze_pass_failure[of ?w3 latin1Unicode ?c "''p''" toolError b1 b2] failingWorld_installed
      b1 b2 r3 by blast
  obtain d1 where d1: "analyzeBasicStructure latin1Unicode ?w4 ?c
      (newCodeAnalysis ''p'' (Now ?w4) (projectDir ?c)) = Inr d1"
    using pass_runs(1)[of ?w4 ?c "[]" latin1Unicode] by (auto simp: failingWorld_run prompt_prefixes)
  obtain d2 where d2: "analyzeDatabaseAndAPI latin1Unicode ?w4 ?c d1 = Inr d2"
    using pass_runs(2)[of ?w4 ?c "[]" latin1Unicode] by (auto simp: failingWorld_run prompt_prefixes)
  obtain d3 where d3: "analyzePerformanceAndScaling latin1Unicode ?w4 ?c d2 = Inr d3"
    using pass_runs(3)[of ?w4 ?c "[]" latin1Unicode] by (auto simp: failingWorld_run prompt_prefixes)
  have r4: "runClaudeCommand ?w4 ?c (prompt_resources d3) = Inl toolError"
    by (simp add: failingWorld_run prompt_prefixes)
  have 4: "claude_Analyze latin1Unicode ?w4 ?c ''p'' = Inl (''resource estimation failed: '' @ toolError)"
    using claude_Analyze_pass_failure[of ?w4 latin1Unicode ?c "''p''" toolError d1 d2 d3]
      failingWorld_installed d1 d2 d3 r4 by blast
  from 0 1 2 3 4 show ?thesis by blast
qed

text \<open>The analyzer passes the failure on: its caller receives an error and no report.\<close>

lemma analyzer_Analyze_failure:
  "claude_Analyze u w (aClaude a) (aProjectID a) = Inl e \<Longrightarrow>
   \<exists>e'. analyzer_Analyze arch u w a = Inl e'"
  by (simp add: analyzer_Analyze_def split: option.splits)

text \<open>
  Claim C9, as amended. When the key is stored, the payload encodes, the request is built
  and the server answers the request that \<open>SendAnalysis\<close> sends (the request built, with
  the content type, the bearer credential and the user agent set) with status \<open>s\<close>,
  \<open>SendAnalysis\<close> succeeds if and only if \<open>s\<close> is 200 or 201; for every other status it
  fails with an error that carries the status and the body of the response.
\<close>

theorem SendAnalysis_status:
  assumes "GetAPIKey w = Inr apiKey"
    and "Marshal w analysis ''1.0.0'' ''cli'' = Inr jsonData"
    and "NewRequest w ''POST'' (baseURL c @ ''/v1/analysis'') jsonData = Inr req"
    and "Do w (Header_Set ''User-Agent'' userAgent
                (Header_Set ''Authorization'' (''Bearer '' @ apiKey)
                   (Header_Set ''Content-Type'' ''application/json'' req))) = Inr resp"
  shows "(SendAnalysis w c analysis = None \<longleftrightarrow> StatusCode resp = 200 \<or> StatusCode resp = 201)
       \<and> (StatusCode resp \<noteq> 200 \<and> StatusCode resp \<noteq> 201 \<longrightarrow>
            SendAnalysis w c analysis =
              Some (''API request failed with status '' @ show_int (StatusCode resp) @ '': '' @
                    Body resp))"
  using assms by (auto simp: SendAnalysis_def Let_def)

theorem SendAnalysis_status_witness:
  "SendAnalysis (respondingWorld \<lparr>StatusCode = 201, Body = ''created''\<rparr>) someApiClient zeroReport = None
   \<and> SendAnalysis (respondingWorld \<lparr>StatusCode = 404, Body = ''not found''\<rparr>) someApiClient zeroReport
       = Some ''API request failed with status 404: not found''"
proof -
  have a: "GetAPIKey (respondingWorld resp) = Inr ''key''"
    "Marshal (respondingWorld resp) zeroReport ''1.0.0'' ''cli'' = Inr ''{}''"
    "NewRequest (respondingWorld resp) ''POST'' (baseURL someApiClient @ ''/v1/analysis'') ''{}''
       = Inr \<lparr>reqMethod = ''POST'', reqURL = baseURL someApiClient @ ''/v1/analysis'',
              reqHeader = Map.empty, reqBody = ''{}''\<rparr>"
    "Do (respondingWorld resp)
       (Header_Set ''User-Agent'' userAgent
          (Header_Set ''Authorization'' (''Bearer '' @ ''key'')
             (Header_Set ''Content-Type'' ''application/json''
                \<lparr>reqMethod = ''POST'', reqURL = baseURL someApiClient @ ''/v1/analysis'',
                 reqHeader = Map.empty, reqBody = ''{}''\<rparr>))) = Inr resp" for resp
    by (simp_all add: respondingWorld_def Header_Set_def)
  have s: "show_int 404 = ''404''" by (simp add: show_int_def digit_char_def)
  from SendAnalysis_status[OF a, of "\<lparr>StatusCode = 201, Body = ''created''\<rparr>"]
       SendAnalysis_status[OF a, of "\<lparr>StatusCode = 404, Body = ''not found''\<rparr>"] s
  show ?thesis by simp
qed

text \<open>Claim C9 as stated fails: the status 204 is a failure.\<close>

theorem SendAnalysis_204_counterexample:
  "(200::int) \<le> 204 \<and> (204::int) \<le> 299
   \<and> SendAnalysis (respondingWorld \<lparr>StatusCode = 204, Body = []\<rparr>) someApiClient zeroReport
       = Some ''API request failed with status 204: ''"
  by (simp add: SendAnalysis_def respondingWorld_def Header_Set_def Let_def show_int_def
                digit_char_def)

section \<open>The reports the program builds\<close>

text \<open>
  \<open>postProcess\<close> is only applied to a report that \<open>Client.Analyze\<close> has returned.
  Such a report has a complexity score in [1, 100], since \<open>extractComplexity\<close> returns
  one and the later passes keep it, and CPU cores that are not NaN. So every report
  that the analyzer returns satisfies the invariants of the specification, and
  \<open>postProcess\<close> leaves it unchanged.
\<close>

lemma ParseFloat_not_NaN: "ParseFloat s \<noteq> Some NaN"
  unfolding ParseFloat_def Let_def
  by (simp split: float64.splits)

lemma extractFloat_not_NaN: "extractFloat t p \<noteq> NaN"
  using ParseFloat_not_NaN
  by (auto simp: extractFloat_def split: option.splits)


lemma estimateCPUFromEndpoints_not_NaN: "estimateCPUFromEndpoints n \<noteq> NaN"
  by (simp add: estimateCPUFromEndpoints_def)


lemma analyzePerformanceAndScaling_complexity:
  "analyzePerformanceAndScaling u w c a = Inr b \<Longrightarrow> ComplexityScore b = ComplexityScore a"
  by (auto simp: analyzePerformanceAndScaling_def split: sum.splits)

lemma estimateResources_result:
  "estimateResources w c a = Inr b \<Longrightarrow>
     ComplexityScore b = ComplexityScore a \<and> CPUCores (ResourceUsage b) \<noteq> NaN"
  by (auto simp: estimateResources_def Let_def f64_is_zero_def extractFloat_not_NaN
        estimateCPUFromEndpoints_not_NaN split: sum.splits if_splits)

lemma digit_rx_groups: "digit_rx r \<Longrightarrow> digit_groups r"
  by (induction r) auto

lemma digit_match:
  assumes "cmatch ci CDigit (fst x)" and "ascii_token x"
  shows "digit_token x"
proof -
  from assms(1) have r: "0x30 \<le> fst x" "fst x \<le> 0x39" by simp_all
  with assms(2) have s: "snd x = [byte_char (fst x)]" by (simp add: ascii_token_def)
  from r have "byte (byte_char (fst x)) = fst x" by (intro byte_byte_char) simp
  with r s show ?thesis by (simp add: digit_token_def is_digit_def)
qed

lemma open_items_step:
  "open_items k (x # xs) \<Longrightarrow> digit_token x \<Longrightarrow> open_items k xs"
proof (induction k)
  case Nil
  then show ?case by simp
next
  case (Cons i k)
  show ?case
  proof (cases i)
    case (Rx r)
    with Cons show ?thesis by simp
  next
    case (Close n s0)
    from Cons.prems Close obtain d where p: "plain_items k" and d: "s0 = d @ x # xs"
      and t: "list_all digit_token d"
      by auto
    from d have "s0 = (d @ [x]) @ xs" by simp
    moreover from t Cons.prems(2) have "list_all digit_token (d @ [x])" by simp
    ultimately show ?thesis using p Close by (simp del: append_assoc)
  qed
qed

lemma bt_digit_captures:
  "(plain_items k \<or> open_items k s) \<Longrightarrow> list_all ascii_token s \<Longrightarrow> digit_captures caps \<Longrightarrow>
   bt ci k s caps = Some (rest, caps') \<Longrightarrow> digit_captures caps'"
proof (induction ci k s caps arbitrary: rest caps' rule: bt.induct)
  case (1 ci s caps)
  then show ?case by simp
next
  case (2 ci k s caps)
  then show ?case by auto
next
  case (3 ci c k s caps)
  show ?case
  proof (cases s)
    case Nil
    with 3 show ?thesis by simp
  next
    case (Cons x xs)
    with "3.prems"(4) have m: "cmatch ci c (fst x)" and b: "bt ci k xs caps = Some (rest, caps')"
      by (auto split: if_splits)
    from "3.prems"(2) Cons have ax: "ascii_token x" and axs: "list_all ascii_token xs" by simp_all
    from "3.prems"(1) have inv: "plain_items k \<or> open_items k xs"
    proof
      assume "plain_items (Rx (Class c) # k)"
      then show ?thesis by simp
    next
      assume o: "open_items (Rx (Class c) # k) s"
      then have "c = CDigit" by simp
      with m ax have dx: "digit_token x" using digit_match by blast
      from o Cons have "open_items k (x # xs)" by simp
      from open_items_step[OF this dx] show ?thesis by blast
    qed
    from "3.IH"[OF Cons m inv axs "3.prems"(3) b] show ?thesis .
  qed
next
  case (4 ci r1 r2 k s caps)
  from "4.prems"(1) have "plain_items (Rx r1 # Rx r2 # k) \<or> open_items (Rx r1 # Rx r2 # k) s"
    by auto
  with 4 show ?case by simp
next
  case (5 ci r1 r2 k s caps)
  from "5.prems"(1) have i: "plain_items (Rx r1 # k) \<or> open_items (Rx r1 # k) s"
    "plain_items (Rx r2 # k) \<or> open_items (Rx r2 # k) s"
    by auto
  show ?case
  proof (cases "bt ci (Rx r1 # k) s caps")
    case None
    with "5.prems"(4) have "bt ci (Rx r2 # k) s caps = Some (rest, caps')" by simp
    from "5.IH"(2)[OF None i(2) "5.prems"(2) "5.prems"(3) this] show ?thesis .
  next
    case (Some m)
    with "5.prems"(4) have "bt ci (Rx r1 # k) s caps = Some (rest, caps')" by simp
    from "5.IH"(1)[OF i(1) "5.prems"(2) "5.prems"(3) this] show ?thesis .
  qed
next
  case (6 ci r k s caps)
  from "6.prems"(1) have i: "plain_items (Rx r # k) \<or> open_items (Rx r # k) s"
    "plain_items k \<or> open_items k s"
    by auto
  show ?case
  proof (cases "bt ci (Rx r # k) s caps")
    case None
    with "6.prems"(4) have "bt ci k s caps = Some (rest, caps')" by simp
    from "6.IH"(2)[OF None i(2) "6.prems"(2) "6.prems"(3) this] show ?thesis .
  next
    case (Some m)
    with "6.prems"(4) have "bt ci (Rx r # k) s caps = Some (rest, caps')" by simp
    from "6.IH"(1)[OF i(1) "6.prems"(2) "6.prems"(3) this] show ?thesis .
  qed
next
  case (7 ci c k s caps)
  from "7.prems"(1) have i: "plain_items k \<or> open_items k s" by auto
  show ?case
  proof (cases s)
    case Nil
    with "7.prems"(4) have "bt ci k s caps = Some (rest, caps')" by simp
    from "7.IH"(1)[OF Nil i "7.prems"(2) "7.prems"(3) this] show ?thesis .
  next
    case (Cons x xs)
    from "7.prems"(2) Cons have ax: "ascii_token x" and axs: "list_all ascii_token xs" by simp_all
    show ?thesis
    proof (cases "cmatch ci c (fst x)")
      case False
      with "7.prems"(4) Cons have "bt ci k s caps = Some (rest, caps')" by simp
      from "7.IH"(4)[OF Cons False i "7.prems"(2) "7.prems"(3) this] show ?thesis .
    next
      case True
      from "7.prems"(1) have j: "plain_items (Rx (Star c) # k) \<or> open_items (Rx (Star c) # k) xs"
      proof
        assume "plain_items (Rx (Star c) # k)"
        then show ?thesis by simp
      next
        assume o: "open_items (Rx (Star c) # k) s"
        then have "c = CDigit" by simp
        with True ax have "digit_token x" using digit_match by blast
        with o Cons show ?thesis using open_items_step by blast
      qed
      show ?thesis
      proof (cases "bt ci (Rx (Star c) # k) xs caps")
        case None
        with "7.prems"(4) Cons True have "bt ci k s caps = Some (rest, caps')" by simp
        from "7.IH"(3)[OF Cons True None i "7.prems"(2) "7.prems"(3) this] show ?thesis .
      next
        case (Some m)
        with "7.prems"(4) Cons True have "bt ci (Rx (Star c) # k) xs caps = Some (rest, caps')"
          by simp
        from "7.IH"(2)[OF Cons True j axs "7.prems"(3) this] show ?thesis .
      qed
    qed
  qed
next
  case (8 ci c k s caps)
  from "8.prems"(1) have
    "plain_items (Rx (Class c) # Rx (Star c) # k) \<or> open_items (Rx (Class c) # Rx (Star c) # k) s"
    by auto
  with 8 show ?case by simp
next
  case (9 ci c k s caps)
  from "9.prems"(1) have p: "plain_items k" by auto
  show ?case
  proof (cases "bt ci k s caps")
    case (Some m)
    with "9.prems"(4) have "bt ci k s caps = Some (rest, caps')" by simp
    from "9.IH"(1)[OF _ "9.prems"(2) "9.prems"(3) this] p show ?thesis by blast
  next
    case None
    show ?thesis
    proof (cases s)
      case Nil
      with None "9.prems"(4) show ?thesis by simp
    next
      case (Cons x xs)
      with None "9.prems"(4) have m: "cmatch ci c (fst x)"
        and b: "bt ci (Rx (LazyStar c) # k) xs caps = Some (rest, caps')"
        by (auto split: if_splits)
      from "9.prems"(2) Cons have axs: "list_all ascii_token xs" by simp
      from p have "plain_items (Rx (LazyStar c) # k) \<or> open_items (Rx (LazyStar c) # k) xs"
        by simp
      from "9.IH"(2)[OF None Cons m this axs "9.prems"(3) b] show ?thesis .
    qed
  qed
next
  case (10 ci n r k s caps)
  from "10.prems"(1) have "digit_rx r" "plain_items k" by auto
  then have "open_items (Rx r # Close n s # k) s" by simp
  with 10 show ?case by simp
next
  case (11 ci n s0 k s caps)
  from "11.prems"(1) obtain d where p: "plain_items k" and d: "s0 = d @ s"
    and t: "list_all digit_token d" by auto
  from d have "take (length s0 - length s) s0 = d" by simp
  moreover from t have "list_all is_digit (text_of d)"
    by (induction d) (simp_all add: text_of_def digit_token_def)
  ultimately have "digit_captures ((n, text_of (take (length s0 - length s) s0)) # caps)"
    using "11.prems"(3) by (simp add: digit_captures_def)
  with 11 p show ?case by simp
qed

lemma find_leftmost_digit_captures:
  "digit_groups r \<Longrightarrow> list_all ascii_token s \<Longrightarrow>
   find_leftmost ci r s = Some (start, rest, caps) \<Longrightarrow> digit_captures caps"
proof (induction s)
  case Nil
  then show ?case
    using bt_digit_captures[of "[Rx r]" "[]" "[]" ci rest caps]
    by (auto simp: digit_captures_def split: option.splits)
next
  case (Cons x xs)
  show ?case
  proof (cases "bt ci [Rx r] (x # xs) []")
    case None
    with Cons show ?thesis by simp
  next
    case (Some m)
    with Cons.prems(3) have "bt ci [Rx r] (x # xs) [] = Some (rest, caps)"
      by (cases m) simp
    with Cons.prems(1,2) show ?thesis
      using bt_digit_captures[of "[Rx r]" "x # xs" "[]" ci rest caps]
      by (simp add: digit_captures_def)
  qed
qed

lemma group_text_digits: "digit_captures caps \<Longrightarrow> list_all is_digit (group_text caps n)"
proof -
  assume a: "digit_captures caps"
  show ?thesis
  proof (cases "map_of caps n")
    case None
    then show ?thesis by (simp add: group_text_def)
  next
    case (Some t)
    then have "(n, t) \<in> set caps" by (rule map_of_SomeD)
    with a have "list_all is_digit t" by (auto simp: digit_captures_def list_all_iff)
    with Some show ?thesis by (simp add: group_text_def)
  qed
qed

lemma digit_val_nonneg: "is_digit c \<Longrightarrow> 0 \<le> digit_val c"
  by (simp add: is_digit_def digit_val_def byte_def)

lemma digits_val_nonneg_from:
  "list_all is_digit ds \<Longrightarrow> 0 \<le> a \<Longrightarrow> 0 \<le> foldl (\<lambda>a c. 10 * a + digit_val c) a ds"
  by (induction ds arbitrary: a) (simp_all add: digit_val_nonneg)

lemma Atoi_digits_nonneg: "list_all is_digit s \<Longrightarrow> Atoi s = Some n \<Longrightarrow> 0 \<le> n"
proof -
  assume d: "list_all is_digit s" and a: "Atoi s = Some n"
  have nd: "\<not> is_digit (CHR ''-'')" "\<not> is_digit (CHR ''+'')"
    by (simp_all add: is_digit_def byte_def)
  have "s \<noteq> [] \<Longrightarrow> hd s \<noteq> CHR ''-'' \<and> hd s \<noteq> CHR ''+''"
    using d nd by (cases s) auto
  with a have "n = digits_val s"
    by (auto simp: Atoi_def Let_def split: if_splits)
  with d show ?thesis
    using digits_val_nonneg_from[of s 0] by (simp add: digits_val_def)
qed

lemma extractNumber_nonneg: "digit_groups r \<Longrightarrow> 0 \<le> extractNumber t r"
proof -
  assume g: "digit_groups r"
  show ?thesis
  proof (cases "find_leftmost True r (runes t)")
    case None
    then show ?thesis by (simp add: extractNumber_def FindStringSubmatch_def del: find_leftmost.simps)
  next
    case (Some m)
    obtain start rest caps where m: "m = (start, rest, caps)" by (cases m) auto
    with Some g have dc: "digit_captures caps"
      using find_leftmost_digit_captures[OF _ runes_ascii] by blast
    show ?thesis
    proof (cases "ngroups r")
      case 0
      with Some m show ?thesis
        by (simp add: extractNumber_def FindStringSubmatch_def del: find_leftmost.simps)
    next
      case (Suc j)
      have "[1 ..< Suc (Suc j)] = 1 # [Suc 1 ..< Suc (Suc j)]" by (rule upt_conv_Cons) simp
      with Some m Suc have e: "extractNumber t r =
        (case Atoi (group_text caps 1) of Some num \<Rightarrow> num | None \<Rightarrow> 0)"
        by (simp add: extractNumber_def FindStringSubmatch_def del: find_leftmost.simps)
      show ?thesis
        using Atoi_digits_nonneg[OF group_text_digits[OF dc, of 1]]
        unfolding e by (cases "Atoi (group_text caps 1)") auto
    qed
  qed
qed

lemma digit_groups_lit: "digit_groups (lit s)"
  by (induction s rule: lit.induct) auto

lemma patterns_digit_groups:
  "digit_groups pattern_database" "digit_groups pattern_complexity_after"
  "digit_groups pattern_complexity_before" "digit_groups pattern_memory"
  "digit_groups pattern_connections" "digit_groups pattern_network"
  "digit_groups pattern_storage" "digit_groups pattern_endpoints"
  by (simp_all add: pat_eval digit_groups_lit)

lemma extractComplexity_bounds: "1 \<le> extractComplexity t \<and> extractComplexity t \<le> 100"
  using extractNumber_nonneg[OF patterns_digit_groups(2), of t]
        extractNumber_nonneg[OF patterns_digit_groups(3), of t]
  by (auto simp: extractComplexity_def Let_def)

lemma analyzeDatabaseAndAPI_complexity_bounds:
  "analyzeDatabaseAndAPI u w c a = Inr b \<Longrightarrow> 1 \<le> ComplexityScore b \<and> ComplexityScore b \<le> 100"
  using extractComplexity_bounds
  by (auto simp: analyzeDatabaseAndAPI_def split: sum.splits)

lemma claude_Analyze_report:
  assumes "claude_Analyze u w c pid = Inr a"
  shows "1 \<le> ComplexityScore a \<and> ComplexityScore a \<le> 100 \<and> CPUCores (ResourceUsage a) \<noteq> NaN"
proof -
  from assms obtain b1 b2 b3 where
    "analyzeDatabaseAndAPI u w c b1 = Inr b2" "analyzePerformanceAndScaling u w c b2 = Inr b3"
    "estimateResources w c b3 = Inr a"
    by (auto simp: claude_Analyze_def Let_def split: if_splits sum.splits)
  then show ?thesis
    using analyzeDatabaseAndAPI_complexity_bounds analyzePerformanceAndScaling_complexity
      estimateResources_result by metis
qed

lemma analyzer_Analyze_report:
  assumes "analyzer_Analyze arch u w an = Inr r"
  shows "128 \<le> MemoryMB (ResourceUsage r) \<and> MemoryMB (ResourceUsage r) \<le> 16384
       \<and> (\<exists>x. CPUCores (ResourceUsage r) = Finite x \<and> 1 / 10 \<le> x \<and> x \<le> 32)
       \<and> 1 \<le> DatabaseConns (ResourceUsage r) \<and> DatabaseConns (ResourceUsage r) \<le> 1000
       \<and> 1 \<le> NetworkMbps (ResourceUsage r) \<and> NetworkMbps (ResourceUsage r) \<le> 10000
       \<and> 1 \<le> StorageGB (ResourceUsage r) \<and> StorageGB (ResourceUsage r) \<le> 10000
       \<and> Language r \<noteq> [] \<and> Framework r \<noteq> []
       \<and> 1 \<le> ComplexityScore r \<and> ComplexityScore r \<le> 100
       \<and> 100 \<le> EstimatedUsers r \<and> EstimatedUsers r \<le> 1000000
       \<and> postProcess arch r = r"
proof -
  from assms obtain a where a: "claude_Analyze u w (aClaude an) (aProjectID an) = Inr a"
    and r: "r = postProcess arch a"
    by (auto simp: analyzer_Analyze_def split: option.splits sum.splits)
  from claude_Analyze_report[OF a] have c: "1 \<le> ComplexityScore a" "ComplexityScore a \<le> 100"
    and n: "CPUCores (ResourceUsage a) \<noteq> NaN" by simp_all
  from c have z: "ComplexityScore a \<noteq> 0" by simp
  have cpu: "\<exists>x. clamp_cpu (CPUCores (ResourceUsage a)) = Finite x \<and> 1 / 10 \<le> x \<and> x \<le> 32"
    using n by (rule clamp_cpu_range)
  have i: "postProcess arch (postProcess arch a) = postProcess arch a"
    unfolding postProcess_twice
    using estimateCurrentUsers_cong[of "postProcess arch a" a arch] z
    by (simp add: postProcess_eq[of arch a] default_complexity_def)
  show ?thesis
    unfolding r i
    using cpu estimateCurrentUsers_bounds[of arch a] c z
    by (simp add: postProcess_eq clamp_int_max_min default_name_nonempty default_complexity_def)
qed

end
